theory Spec2Isabelle
  imports Complex_Main "HOL-Library.Log_Nat"
begin

section \<open>Numeric types of the source\<close>

text \<open>
  The C++ sources compute with \<open>int\<close>, \<open>unsigned\<close> and \<open>float\<close>. Here \<open>int\<close> values
  are HOL integers, \<open>unsigned\<close> values are natural numbers (with the wrap-around
  \<open>mod 2 ^ 32\<close> written where the source adds two of them), and \<open>float\<close> values are
  rationals. The float operations of lines 87 to 95 round their result to single
  precision (\<open>round_float\<close> below); the increment of the loop variables of lines 100
  and 102 is taken exact, which it is for the loop values that single precision holds
  together with their successor.
  A conversion \<open>static_cast<unsigned>(f)\<close> or \<open>static_cast<int>(f)\<close> truncates towards
  zero and is undefined when the truncated value does not fit the target type; a
  dereference of a null pointer is undefined as well. Every such point of the source is
  a branch returning an \<open>error\<close>.
\<close>

datatype error = UndefinedConversion | NullTileDereference | NullImageDereference

definition INT_MAX :: int where
  "INT_MAX = 2147483647"

text \<open>
  Rounding to single precision, to the nearest value and to the even mantissa on a
  tie: a float is a multiple of \<open>2 ^ (e - 23)\<close>, where \<open>2 ^ e\<close> is the power of two at or
  below its magnitude and \<open>e\<close> is at least \<open>-126\<close>. Overflow to infinity is left out: no
  operation of lines 87 to 95 can reach it from a finite scroll position.
\<close>

definition round_to_even :: "rat \<Rightarrow> int" where
  "round_to_even m =
     (if m - of_int \<lfloor>m\<rfloor> < 1 / 2 then \<lfloor>m\<rfloor>
      else if 1 / 2 < m - of_int \<lfloor>m\<rfloor> then \<lfloor>m\<rfloor> + 1
      else if even \<lfloor>m\<rfloor> then \<lfloor>m\<rfloor> else \<lfloor>m\<rfloor> + 1)"

definition pow2 :: "int \<Rightarrow> rat" where
  "pow2 e = (if 0 \<le> e then 2 ^ nat e else 1 / 2 ^ nat (- e))"

text \<open>For a positive \<open>x\<close>, the \<open>e\<close> with \<open>2 ^ e \<le> x < 2 ^ (e + 1)\<close>.\<close>

definition float_exponent :: "rat \<Rightarrow> int" where
  "float_exponent x =
     (if pow2 (bitlen (fst (quotient_of x)) - bitlen (snd (quotient_of x))) \<le> x
      then bitlen (fst (quotient_of x)) - bitlen (snd (quotient_of x))
      else bitlen (fst (quotient_of x)) - bitlen (snd (quotient_of x)) - 1)"

definition round_float :: "rat \<Rightarrow> rat" where
  "round_float x =
     (if x = 0 then 0
      else sgn x * of_int (round_to_even (\<bar>x\<bar> / pow2 (max (float_exponent \<bar>x\<bar>) (- 126) - 23)))
             * pow2 (max (float_exponent \<bar>x\<bar>) (- 126) - 23))"

definition float_add :: "rat \<Rightarrow> rat \<Rightarrow> rat" where
  "float_add a b = round_float (a + b)"

definition float_div :: "rat \<Rightarrow> rat \<Rightarrow> rat" where
  "float_div a b = round_float (a / b)"

definition truncate_float :: "rat \<Rightarrow> int" where
  "truncate_float r = (if r < 0 then \<lceil>r\<rceil> else \<lfloor>r\<rfloor>)"

definition float_to_unsigned :: "rat \<Rightarrow> error + nat" where
  "float_to_unsigned r =
     (if - 1 < r \<and> r < 4294967296 then Inr (nat (truncate_float r))
      else Inl UndefinedConversion)"

definition float_to_int :: "rat \<Rightarrow> error + int" where
  "float_to_int r =
     (if - 2147483649 < r \<and> r < 2147483648 then Inr (truncate_float r)
      else Inl UndefinedConversion)"

section \<open>Data model of the world\<close>

type_synonym SDL_Point = "int \<times> int"

text \<open>
  Modelled from the spec: the class \<open>camera\<close> is used by \<open>world.cpp\<close> through its
  getters, but its code is not part of the sources. The scroll position
  \<open>get_current_x\<close>, \<open>get_current_y\<close> is in tile units and initialises the \<open>float\<close> loop
  variables of \<open>render\<close>; the viewport size is unsigned. The origin of the viewport
  only sets the clip rectangle and is left out.
\<close>

record camera =
  is_enabled :: bool
  get_width :: nat
  get_height :: nat
  get_current_x :: rat
  get_current_y :: rat

record tile_image =
  image_id :: nat

text \<open>
  Modelled from the spec: the classes \<open>tile\<close> and \<open>tile_map\<close> are used by \<open>world.cpp\<close>
  but their code is not part of the sources. A tile carries, per layer, an optional
  image id; the map is a grid of tiles (a position may hold no tile: \<open>get_tile\<close> returns
  a pointer that \<open>render\<close> tests for null), an ordered list of layers, each with its pool
  of default image ids, a registry of images by id and an optional selection image.
\<close>

type_synonym tile = "nat \<Rightarrow> nat option"

record layer =
  default_images :: "nat list"

record tile_map =
  get_map_width :: nat
  get_map_height :: nat
  get_tile_width :: nat
  get_tile_height :: nat
  tiles :: "nat \<times> nat \<Rightarrow> tile option"
  get_layers :: "layer list"
  images :: "nat \<Rightarrow> tile_image option"
  selection_image :: "tile_image option"

text \<open>
  Modelled from the spec: \<open>tile_map::get_tile\<close>. The pointer to a tile is the grid
  position that holds it; \<open>None\<close> is the null pointer.
\<close>

definition get_tile :: "tile_map \<Rightarrow> nat \<Rightarrow> nat \<Rightarrow> (nat \<times> nat) option" where
  "get_tile m tx ty = (case tiles m (tx, ty) of None \<Rightarrow> None | Some t \<Rightarrow> Some (tx, ty))"

text \<open>Modelled from the spec: \<open>tile::get_image_id\<close> and \<open>tile::has_image\<close>, through a tile pointer.\<close>

definition get_image_id :: "tile_map \<Rightarrow> nat \<times> nat \<Rightarrow> nat \<Rightarrow> nat option" where
  "get_image_id m k l = (case tiles m k of None \<Rightarrow> None | Some t \<Rightarrow> t l)"

definition has_image :: "tile_map \<Rightarrow> nat \<times> nat \<Rightarrow> nat \<Rightarrow> bool" where
  "has_image m k l = (get_image_id m k l \<noteq> None)"

text \<open>Modelled from the spec: \<open>tile::set_image_id\<close>, a write through a tile pointer.\<close>

definition set_image_id :: "tile_map \<Rightarrow> nat \<times> nat \<Rightarrow> nat \<Rightarrow> nat \<Rightarrow> tile_map" where
  "set_image_id m k l i =
     (case tiles m k of None \<Rightarrow> m
      | Some t \<Rightarrow> m\<lparr>tiles := (tiles m)(k := Some (t(l := Some i)))\<rparr>)"

text \<open>Modelled from the spec: the image registry and the per-layer default pools.\<close>

definition get_image :: "tile_map \<Rightarrow> nat \<Rightarrow> tile_image option" where
  "get_image m i = images m i"

definition layer_has_default_images :: "tile_map \<Rightarrow> nat \<Rightarrow> bool" where
  "layer_has_default_images m l =
     (l < length (get_layers m) \<and> default_images (get_layers m ! l) \<noteq> [])"

text \<open>
  Modelled from the spec: \<open>get_random_layer_default_image\<close> picks a member of the pool;
  the random number \<open>r\<close> comes from outside.
\<close>

definition get_random_layer_default_image :: "tile_map \<Rightarrow> nat \<Rightarrow> nat \<Rightarrow> nat" where
  "get_random_layer_default_image m l r =
     default_images (get_layers m ! l) ! (r mod length (default_images (get_layers m ! l)))"

text \<open>Modelled from the spec: \<open>tile_map::has_selection_image\<close>.\<close>

definition has_selection_image :: "tile_map \<Rightarrow> bool" where
  "has_selection_image m = (selection_image m \<noteq> None)"

text \<open>
  The world of \<open>world.cpp\<close> (the file \<open>part_000\<close> of the sources, whose line numbers
  are cited below). Game objects are opaque handles, and their render callbacks are
  taken to draw only; the transform is represented by the hit test it provides (see
  \<open>collaborators\<close> below).
\<close>

record world =
  world_map :: tile_map
  cameras :: "camera list"
  selected_world_tile :: SDL_Point
  update_called :: bool
  objects :: "nat list"

definition no_selection :: SDL_Point where
  "no_selection = (INT_MAX, INT_MAX)"

definition get_main_camera :: "world \<Rightarrow> camera option" where
  "get_main_camera w = find is_enabled (cameras w)"

definition update :: "world \<Rightarrow> world" where
  "update w = w\<lparr>update_called := True\<rparr>"

definition set_selection :: "SDL_Point \<Rightarrow> world \<Rightarrow> world" where
  "set_selection tile_point w = w\<lparr>selected_world_tile := tile_point\<rparr>"

definition has_selection :: "world \<Rightarrow> bool" where
  "has_selection w =
     (fst (selected_world_tile w) \<noteq> INT_MAX \<and> snd (selected_world_tile w) \<noteq> INT_MAX)"

definition get_selection :: "world \<Rightarrow> SDL_Point" where
  "get_selection w = selected_world_tile w"

definition reset_selection :: "world \<Rightarrow> world" where
  "reset_selection w = w\<lparr>selected_world_tile := (INT_MAX, INT_MAX)\<rparr>"


section \<open>world::render\<close>

text \<open>
  What \<open>render\<close> takes from its collaborators. \<open>hittest p\<close> is the value of
  \<open>transform.tile_hittest_by_viewport(transform.world_tile_to_viewport_pixels(p),
  input::mouse_position())\<close> for the tile point \<open>p\<close> (transform and cursor do not
  change during a call), and \<open>random n\<close> is the \<open>n\<close>-th random number that
  \<open>get_random_layer_default_image\<close> draws.
\<close>

record collaborators =
  hittest :: "SDL_Point \<Rightarrow> bool"
  random :: "nat \<Rightarrow> nat"

datatype draw_call =
    DrawTile SDL_Point nat nat
  | DrawSelection SDL_Point
  | ObjectRender nat

text \<open>
  The state of one call: the map and the selection, which the loop body writes, and
  the log of what the call did: the tile indices passed to \<open>get_tile\<close>, the draw calls
  issued, the number of random numbers drawn and whether the warning was printed.
\<close>

record render_state =
  rs_map :: tile_map
  rs_selection :: SDL_Point
  tile_reads :: "(nat \<times> nat) list"
  draw_calls :: "draw_call list"
  random_drawn :: nat
  warned :: bool

text \<open>A loop over a list of values whose body may fail: the first failure ends the call.\<close>

fun for_each :: "('a \<Rightarrow> 's \<Rightarrow> error + 's) \<Rightarrow> 'a list \<Rightarrow> 's \<Rightarrow> error + 's" where
  "for_each body [] s = Inr s"
| "for_each body (v # vs) s =
     (case body v s of Inl e \<Rightarrow> Inl e | Inr s' \<Rightarrow> for_each body vs s')"

text \<open>
  The values of the loop variable of \<open>for (float t = start; t < max_tiles; t++)\<close>, with
  the increment and the comparison taken exact. The float increment rounds where
  \<open>t + 1\<close> is no float (a start with digits at the end of the mantissa, or a value
  beyond \<open>2 ^ 24\<close>): there the source can visit other values between the same bounds,
  or make no progress.
\<close>

function float_range :: "rat \<Rightarrow> nat \<Rightarrow> rat list" where
  "float_range t max_tiles =
     (if t < of_nat max_tiles then t # float_range (t + 1) max_tiles else [])"
  by pat_completeness auto
termination
  by (relation "measure (\<lambda>(t, max_tiles). nat \<lceil>of_nat max_tiles - t\<rceil>)") (simp, simp, linarith)

declare float_range.simps [simp del]

text \<open>
  Lines 87 to 95: \<open>static_cast<unsigned>(scroll + float(viewport + tile) / (tile / 2.0f) + 1)\<close>.
  The sum of the two unsigned values wraps around; its conversion to \<open>float\<close>, the
  conversion of the tile dimension, the two divisions and the two additions each round
  to single precision. With a tile dimension of 0 the quotient is infinite or not a
  number, and the conversion is undefined.
\<close>

definition max_tiles :: "rat \<Rightarrow> nat \<Rightarrow> nat \<Rightarrow> error + nat" where
  "max_tiles scroll viewport_dim tile_dim =
     (if tile_dim = 0 then Inl UndefinedConversion
      else float_to_unsigned
        (float_add
           (float_add scroll
              (float_div
                 (round_float (of_int ((int viewport_dim + int tile_dim) mod 4294967296)))
                 (float_div (round_float (of_nat tile_dim)) 2)))
           1))"

text \<open>Lines 87 to 98: both maxima, clamped to the map by \<open>std::min\<close>.\<close>

definition clamped_max_tiles :: "camera \<Rightarrow> tile_map \<Rightarrow> error + nat \<times> nat" where
  "clamped_max_tiles cam m =
     (case max_tiles (get_current_x cam) (get_width cam) (get_tile_width m) of
        Inl e \<Rightarrow> Inl e
      | Inr max_tiles_horiz \<Rightarrow>
          (case max_tiles (get_current_y cam) (get_height cam) (get_tile_height m) of
             Inl e \<Rightarrow> Inl e
           | Inr max_tiles_vert \<Rightarrow>
               Inr (min max_tiles_horiz (get_map_width m), min max_tiles_vert (get_map_height m))))"

text \<open>
  Lines 114 to 129, for one tile pointer and one layer: the image of the tile, when it
  has one; else a random default image of the layer, written back onto the tile; else
  \<open>continue\<close>, which is the result \<open>None\<close>.
\<close>

definition resolve_image ::
  "collaborators \<Rightarrow> (nat \<times> nat) option \<Rightarrow> nat \<Rightarrow> render_state
    \<Rightarrow> error + (tile_image option \<times> render_state) option" where
  "resolve_image E current_tile layer_id s =
     (case (case current_tile of None \<Rightarrow> None | Some k \<Rightarrow> get_image_id (rs_map s) k layer_id) of
        Some i \<Rightarrow> Inr (Some (get_image (rs_map s) i, s))
      | None \<Rightarrow>
          if layer_has_default_images (rs_map s) layer_id then
            (case get_image (rs_map s)
                (get_random_layer_default_image (rs_map s) layer_id (random E (random_drawn s))) of
               None \<Rightarrow> Inl NullImageDereference
             | Some current_image \<Rightarrow>
                 (case current_tile of
                    None \<Rightarrow> Inl NullTileDereference
                  | Some k \<Rightarrow>
                      Inr (Some (Some current_image,
                        s\<lparr>rs_map := set_image_id (rs_map s) k layer_id (image_id current_image),
                          random_drawn := Suc (random_drawn s)\<rparr>))))
          else Inr None)"

text \<open>Lines 135 to 149: the draw call of the tile image.\<close>

definition draw_tile ::
  "(nat \<times> nat) option \<Rightarrow> SDL_Point \<Rightarrow> nat \<Rightarrow> tile_image option \<Rightarrow> render_state \<Rightarrow> render_state" where
  "draw_tile current_tile tile_point layer_id current_image s =
     (case current_image of
        None \<Rightarrow> s
      | Some img \<Rightarrow>
          (case current_tile of
             None \<Rightarrow> s
           | Some k \<Rightarrow>
               if has_image (rs_map s) k layer_id
               then s\<lparr>draw_calls := draw_calls s @ [DrawTile tile_point layer_id (image_id img)]\<rparr>
               else s))"

text \<open>Lines 151 to 156: the hit test; a hit calls \<open>set_selection(tile_point)\<close>.\<close>

definition select_tile ::
  "collaborators \<Rightarrow> SDL_Point \<Rightarrow> render_state \<times> bool \<Rightarrow> render_state \<times> bool" where
  "select_tile E tile_point sb =
     (if hittest E tile_point then ((fst sb)\<lparr>rs_selection := tile_point\<rparr>, True) else sb)"

text \<open>Lines 158 to 177: the selection image, on the first layer of a selected tile.\<close>

definition draw_selection :: "SDL_Point \<Rightarrow> nat \<Rightarrow> render_state \<times> bool \<Rightarrow> render_state \<times> bool" where
  "draw_selection tile_point layer_id sb =
     (if layer_id = 0 \<and> snd sb \<and> has_selection_image (rs_map (fst sb))
      then ((fst sb)\<lparr>draw_calls := draw_calls (fst sb) @ [DrawSelection tile_point]\<rparr>, snd sb)
      else sb)"

text \<open>
  The body of the loop over the layers (lines 112 to 178). The flag beside the state is
  the local \<open>is_selected\<close>.
\<close>

definition render_layer ::
  "collaborators \<Rightarrow> (nat \<times> nat) option \<Rightarrow> SDL_Point \<Rightarrow> nat \<Rightarrow> render_state \<times> bool
    \<Rightarrow> error + render_state \<times> bool" where
  "render_layer E current_tile tile_point layer_id sb =
     (case resolve_image E current_tile layer_id (fst sb) of
        Inl e \<Rightarrow> Inl e
      | Inr None \<Rightarrow> Inr sb
      | Inr (Some (current_image, s1)) \<Rightarrow>
          Inr (draw_selection tile_point layer_id
                (select_tile E tile_point
                  (draw_tile current_tile tile_point layer_id current_image s1, snd sb))))"

text \<open>The body of the loop over the tile columns (lines 104 to 178).\<close>

definition render_tile :: "collaborators \<Rightarrow> rat \<Rightarrow> rat \<Rightarrow> render_state \<Rightarrow> error + render_state" where
  "render_tile E tile_y tile_x s =
     (case float_to_unsigned tile_x of
        Inl e \<Rightarrow> Inl e
      | Inr ux \<Rightarrow>
     (case float_to_unsigned tile_y of
        Inl e \<Rightarrow> Inl e
      | Inr uy \<Rightarrow>
     (case float_to_int tile_x of
        Inl e \<Rightarrow> Inl e
      | Inr px \<Rightarrow>
     (case float_to_int tile_y of
        Inl e \<Rightarrow> Inl e
      | Inr py \<Rightarrow>
     (case for_each (render_layer E (get_tile (rs_map s) ux uy) (px, py))
             [0..<length (get_layers (rs_map s))]
             (s\<lparr>tile_reads := tile_reads s @ [(ux, uy)]\<rparr>, False) of
        Inl e \<Rightarrow> Inl e
      | Inr sb \<Rightarrow> Inr (fst sb))))))"

text \<open>The two loops over the visible tiles (lines 100 to 180).\<close>

definition render_tiles ::
  "collaborators \<Rightarrow> camera \<Rightarrow> nat \<times> nat \<Rightarrow> render_state \<Rightarrow> error + render_state" where
  "render_tiles E cam maxima s =
     for_each
       (\<lambda>tile_y. for_each (render_tile E tile_y) (float_range (get_current_x cam) (fst maxima)))
       (float_range (get_current_y cam) (snd maxima)) s"

text \<open>Lines 182 to 186: every game object renders itself.\<close>

definition render_objects :: "nat list \<Rightarrow> render_state \<Rightarrow> render_state" where
  "render_objects objs s = s\<lparr>draw_calls := draw_calls s @ map ObjectRender objs\<rparr>"

definition begin_render :: "world \<Rightarrow> render_state" where
  "begin_render w =
     \<lparr>rs_map = world_map w, rs_selection = selected_world_tile w, tile_reads = [],
      draw_calls = [], random_drawn = 0, warned = \<not> update_called w\<rparr>"

text \<open>
  \<open>world::render\<close>. Without an enabled camera the call returns at line 75, before
  anything else is done. The result is the world after the call and the log of the call.
\<close>

definition render :: "collaborators \<Rightarrow> world \<Rightarrow> error + world \<times> render_state" where
  "render E w =
     (case get_main_camera w of
        None \<Rightarrow> Inr (w, begin_render w)
      | Some cam \<Rightarrow>
          (case clamped_max_tiles cam (world_map w) of
             Inl e \<Rightarrow> Inl e
           | Inr maxima \<Rightarrow>
               (case render_tiles E cam maxima (begin_render w) of
                  Inl e \<Rightarrow> Inl e
                | Inr s \<Rightarrow>
                    Inr (w\<lparr>world_map := rs_map s, selected_world_tile := rs_selection s,
                           update_called := False\<rparr>,
                         render_objects (objects w) s))))"


section \<open>The glyph atlas of simple\_bitmap\_font.cpp\<close>

record SDL_Rect =
  rect_x :: int
  rect_y :: int
  rect_w :: int
  rect_h :: int

text \<open>
  A glyph: the width and height of its surface, its source rectangle and the index of
  its texture. \<open>font_info.glyphs\<close> is a container keyed by the character; it is the
  list of its entries in the order of iteration.
\<close>

record glyph_info =
  surface_w :: int
  surface_h :: int
  srcrect :: SDL_Rect
  texture_index :: nat

record bitmap_font_info =
  glyphs :: "(char \<times> glyph_info) list"
  textures :: "SDL_Rect list"

definition max_texture_width :: int where
  "max_texture_width = 2048"

definition max_texture_height :: int where
  "max_texture_height = 2048"

text \<open>
  The locals of \<open>generate_glyph_srcrects\<close> and the textures pushed so far. The sums of
  the routine are those of the integers; \<open>sums_fit\<close> below says when they are the
  sums of the source, whose \<open>int\<close> overflows beyond \<open>INT_MAX\<close>.
\<close>

record pack_state =
  pk_texture_width :: int
  pk_texture_height :: int
  pk_texture_index :: nat
  pk_x :: int
  pk_y :: int
  pk_row_height :: int
  pk_textures :: "SDL_Rect list"

definition pack_start :: pack_state where
  "pack_start =
     \<lparr>pk_texture_width = 0, pk_texture_height = 0, pk_texture_index = 0,
      pk_x = 0, pk_y = 0, pk_row_height = 0, pk_textures = []\<rparr>"

text \<open>Lines 129 and 130: the row is as high as its tallest glyph.\<close>

definition grow_row :: "glyph_info \<Rightarrow> pack_state \<Rightarrow> pack_state" where
  "grow_row glyph s =
     (if surface_h glyph > pk_row_height s then s\<lparr>pk_row_height := surface_h glyph\<rparr> else s)"

text \<open>Lines 133 to 137: a new row when the width is used up.\<close>

definition wrap_row :: "glyph_info \<Rightarrow> pack_state \<Rightarrow> pack_state" where
  "wrap_row glyph s =
     (if pk_x s + surface_w glyph \<ge> max_texture_width
      then s\<lparr>pk_x := 0, pk_y := pk_y s + pk_row_height s, pk_row_height := surface_h glyph\<rparr>
      else s)"

text \<open>Lines 141 to 151: a new texture when the height is used up.\<close>

definition next_texture :: "glyph_info \<Rightarrow> pack_state \<Rightarrow> pack_state" where
  "next_texture glyph s =
     (if pk_y s + surface_h glyph \<ge> max_texture_height
      then s\<lparr>pk_textures := pk_textures s @
                 [\<lparr>rect_x = 0, rect_y = 0, rect_w = pk_texture_width s, rect_h = pk_texture_height s\<rparr>],
               pk_texture_index := Suc (pk_texture_index s),
               pk_texture_width := 0, pk_texture_height := 0, pk_x := 0, pk_y := 0\<rparr>
      else s)"

text \<open>Lines 154 and 155: the source rectangle of the glyph and its texture.\<close>

definition set_srcrect :: "pack_state \<Rightarrow> glyph_info \<Rightarrow> glyph_info" where
  "set_srcrect s glyph =
     glyph\<lparr>srcrect := \<lparr>rect_x = pk_x s, rect_y = pk_y s,
                        rect_w = surface_w glyph, rect_h = surface_h glyph\<rparr>,
           texture_index := pk_texture_index s\<rparr>"

text \<open>Lines 158 to 162: the cursor moves right and the texture grows to hold the glyph.\<close>

definition advance :: "glyph_info \<Rightarrow> pack_state \<Rightarrow> pack_state" where
  "advance glyph s =
     s\<lparr>pk_x := pk_x s + surface_w glyph,
       pk_texture_width :=
         (if pk_x s + surface_w glyph > pk_texture_width s then pk_x s + surface_w glyph
          else pk_texture_width s),
       pk_texture_height :=
         (if pk_y s + pk_row_height s > pk_texture_height s then pk_y s + pk_row_height s
          else pk_texture_height s)\<rparr>"

text \<open>The state in which the glyph is placed, and the state after the loop body.\<close>

definition before_place :: "glyph_info \<Rightarrow> pack_state \<Rightarrow> pack_state" where
  "before_place glyph s = next_texture glyph (wrap_row glyph (grow_row glyph s))"

definition pack_glyph :: "glyph_info \<Rightarrow> pack_state \<Rightarrow> glyph_info \<times> pack_state" where
  "pack_glyph glyph s =
     (set_srcrect (before_place glyph s) glyph, advance glyph (before_place glyph s))"

text \<open>
  The loop of lines 124 to 163 over the entries still to visit; the accumulator holds
  the entries already visited, with their rectangles, and the locals.
\<close>

fun pack_glyphs ::
  "(char \<times> glyph_info) list \<Rightarrow> (char \<times> glyph_info) list \<times> pack_state
    \<Rightarrow> (char \<times> glyph_info) list \<times> pack_state" where
  "pack_glyphs [] acc = acc"
| "pack_glyphs (cg # rest) acc =
     pack_glyphs rest
       (fst acc @ [(fst cg, fst (pack_glyph (snd cg) (snd acc)))],
        snd (pack_glyph (snd cg) (snd acc)))"

text \<open>Lines 166 to 173: the last texture, when it has an area.\<close>

definition last_texture :: "pack_state \<Rightarrow> SDL_Rect list" where
  "last_texture s =
     (if pk_texture_width s > 0 \<and> pk_texture_height s > 0
      then pk_textures s @
        [\<lparr>rect_x = 0, rect_y = 0, rect_w = pk_texture_width s, rect_h = pk_texture_height s\<rparr>]
      else pk_textures s)"

definition generate_glyph_srcrects :: "bitmap_font_info \<Rightarrow> bitmap_font_info" where
  "generate_glyph_srcrects font_info =
     (if textures font_info \<noteq> [] \<or> glyphs font_info = [] then font_info
      else font_info
        \<lparr>glyphs := fst (pack_glyphs (glyphs font_info) ([], pack_start)),
         textures := last_texture (snd (pack_glyphs (glyphs font_info) ([], pack_start)))\<rparr>)"

text \<open>
  A rectangle lies inside another; two rectangles overlap when they share a point of
  positive area.
\<close>

definition rect_inside :: "SDL_Rect \<Rightarrow> SDL_Rect \<Rightarrow> bool" where
  "rect_inside r b =
     (rect_x b \<le> rect_x r \<and> rect_y b \<le> rect_y r \<and>
      rect_x r + rect_w r \<le> rect_x b + rect_w b \<and>
      rect_y r + rect_h r \<le> rect_y b + rect_h b)"

definition rects_overlap :: "SDL_Rect \<Rightarrow> SDL_Rect \<Rightarrow> bool" where
  "rects_overlap a b =
     (rect_x a < rect_x b + rect_w b \<and> rect_x b < rect_x a + rect_w a \<and>
      rect_y a < rect_y b + rect_h b \<and> rect_y b < rect_y a + rect_h a)"


section \<open>The maximum of the spec\<close>

text \<open>
  The bound as the specification words it:
  \<open>scroll_position + ceil((viewport_dimension + tile_dimension) / (tile_dimension/2)) + 1\<close>,
  clamped to the map.
\<close>

definition spec_max_tiles :: "rat \<Rightarrow> nat \<Rightarrow> nat \<Rightarrow> nat \<Rightarrow> rat" where
  "spec_max_tiles scroll viewport_dim tile_dim map_dim =
     min (scroll + of_int \<lceil>of_nat (viewport_dim + tile_dim) / (of_nat tile_dim / 2 :: rat)\<rceil> + 1)
         (of_nat map_dim)"

text \<open>
  The operations of lines 87 to 95 are exact for a scroll position, a viewport
  dimension and a tile dimension: none of the six rounds.
\<close>

definition exact_in_float :: "rat \<Rightarrow> bool" where
  "exact_in_float x = (round_float x = x)"

definition bound_exact :: "rat \<Rightarrow> nat \<Rightarrow> nat \<Rightarrow> bool" where
  "bound_exact scroll viewport_dim tile_dim =
     (exact_in_float (of_nat (viewport_dim + tile_dim)) \<and>
      exact_in_float (of_nat tile_dim) \<and>
      exact_in_float (of_nat tile_dim / 2) \<and>
      exact_in_float (of_nat (viewport_dim + tile_dim) / (of_nat tile_dim / 2)) \<and>
      exact_in_float (scroll + of_nat (viewport_dim + tile_dim) / (of_nat tile_dim / 2)) \<and>
      exact_in_float (scroll + of_nat (viewport_dim + tile_dim) / (of_nat tile_dim / 2) + 1))"

section \<open>Observations of a call and example inputs\<close>

text \<open>What a call leaves behind, or the error that ended it.\<close>

definition selection_after :: "error + world \<times> render_state \<Rightarrow> error + SDL_Point" where
  "selection_after r = (case r of Inl e \<Rightarrow> Inl e | Inr ws \<Rightarrow> Inr (selected_world_tile (fst ws)))"

definition update_called_after :: "error + world \<times> render_state \<Rightarrow> error + bool" where
  "update_called_after r = (case r of Inl e \<Rightarrow> Inl e | Inr ws \<Rightarrow> Inr (update_called (fst ws)))"

definition draw_calls_of :: "error + world \<times> render_state \<Rightarrow> error + draw_call list" where
  "draw_calls_of r = (case r of Inl e \<Rightarrow> Inl e | Inr ws \<Rightarrow> Inr (draw_calls (snd ws)))"

definition tile_reads_of :: "error + world \<times> render_state \<Rightarrow> error + (nat \<times> nat) list" where
  "tile_reads_of r = (case r of Inl e \<Rightarrow> Inl e | Inr ws \<Rightarrow> Inr (tile_reads (snd ws)))"

text \<open>
  The scenario of the specification: a map of 4 by 4 tiles of 64 by 32 pixels with one
  layer that has no default images, the tile (2, 2) with the image 1, and a camera at
  scroll position (0, 0) whose viewport of 640 by 480 pixels covers the map.
\<close>

definition example_camera :: camera where
  "example_camera =
     \<lparr>is_enabled = True, get_width = 640, get_height = 480, get_current_x = 0, get_current_y = 0\<rparr>"

definition example_tiles :: "nat \<times> nat \<Rightarrow> tile option" where
  "example_tiles k =
     (if fst k < 4 \<and> snd k < 4
      then Some (\<lambda>l. if k = (2, 2) \<and> l = 0 then Some 1 else None)
      else None)"

definition example_images :: "nat \<Rightarrow> tile_image option" where
  "example_images i = (if i = 1 \<or> i = 2 then Some \<lparr>image_id = i\<rparr> else None)"

definition example_map :: tile_map where
  "example_map =
     \<lparr>get_map_width = 4, get_map_height = 4, get_tile_width = 64, get_tile_height = 32,
      tiles = example_tiles, get_layers = [\<lparr>default_images = []\<rparr>],
      images = example_images, selection_image = None\<rparr>"

definition example_world :: world where
  "example_world =
     \<lparr>world_map = example_map, cameras = [example_camera],
      selected_world_tile = (INT_MAX, INT_MAX), update_called = True, objects = []\<rparr>"

text \<open>The cursor lies on no tile; the random numbers are 0, 1, 2 and so on.\<close>

definition cursor_nowhere :: collaborators where
  "cursor_nowhere = \<lparr>hittest = (\<lambda>p. False), random = (\<lambda>n. n)\<rparr>"

text \<open>The cursor lies in the diamond of the tile at \<open>p\<close> only.\<close>

definition cursor_on :: "SDL_Point \<Rightarrow> collaborators" where
  "cursor_on p = \<lparr>hittest = (\<lambda>q. q = p), random = (\<lambda>n. n)\<rparr>"

text \<open>
  A viewport of 100 by 100 pixels over a map of 10 by 10 tiles: the quotients
  \<open>(100 + 64) / 32\<close> and \<open>(100 + 32) / 16\<close> are fractional.
\<close>

definition small_camera :: camera where
  "small_camera =
     \<lparr>is_enabled = True, get_width = 100, get_height = 100, get_current_x = 0, get_current_y = 0\<rparr>"

definition wide_map :: tile_map where
  "wide_map = example_map\<lparr>get_map_width := 10, get_map_height := 10\<rparr>"

section \<open>What a call selects\<close>

text \<open>
  A tile has something to draw on a layer when it has an image there or the layer has
  default images: these are the pairs for which the loop body of \<open>render\<close> passes the
  \<open>continue\<close> of line 128.
\<close>

definition layer_drawable :: "tile_map \<Rightarrow> nat \<times> nat \<Rightarrow> nat \<Rightarrow> bool" where
  "layer_drawable m k l = (has_image m k l \<or> layer_has_default_images m l)"

definition tile_point_of :: "nat \<times> nat \<Rightarrow> SDL_Point" where
  "tile_point_of k = (int (fst k), int (snd k))"

text \<open>
  Of the tiles read, in order, those under the cursor with something to draw on a
  layer; and the selection they leave: the last of them, or the old selection.
\<close>

definition hit_tiles :: "collaborators \<Rightarrow> tile_map \<Rightarrow> (nat \<times> nat) list \<Rightarrow> (nat \<times> nat) list" where
  "hit_tiles E m ks =
     filter (\<lambda>k. hittest E (tile_point_of k) \<and>
                 list_ex (layer_drawable m k) [0..<length (get_layers m)]) ks"

definition selection_of :: "SDL_Point \<Rightarrow> (nat \<times> nat) list \<Rightarrow> SDL_Point" where
  "selection_of old hits = (if hits = [] then old else tile_point_of (last hits))"

text \<open>The tile pointer of a loop over the layers: null exactly when the position holds no tile.\<close>

definition points_to :: "(nat \<times> nat) option \<Rightarrow> nat \<times> nat \<Rightarrow> tile_map \<Rightarrow> bool" where
  "points_to ct k m = (ct = (if tiles m k = None then None else Some k))"

text \<open>
  Variants of the scenario: a layer with the default images 1 and 2; another random
  source; no enabled camera; a position without tile under a layer with default
  images; a default image that is not registered; a camera scrolled to column \<open>-1\<close>.
\<close>

definition default_map :: tile_map where
  "default_map = example_map\<lparr>get_layers := [\<lparr>default_images = [1, 2]\<rparr>]\<rparr>"

definition default_world :: world where
  "default_world = example_world\<lparr>world_map := default_map\<rparr>"

definition other_random :: collaborators where
  "other_random = \<lparr>hittest = (\<lambda>p. False), random = (\<lambda>n. Suc n)\<rparr>"

definition no_camera_world :: world where
  "no_camera_world = example_world\<lparr>cameras := [example_camera\<lparr>is_enabled := False\<rparr>]\<rparr>"

definition missing_tile_world :: world where
  "missing_tile_world =
     example_world\<lparr>world_map :=
       default_map\<lparr>tiles := (\<lambda>k. if k = (1, 0) then None else example_tiles k)\<rparr>\<rparr>"

definition unregistered_default_world :: world where
  "unregistered_default_world =
     example_world\<lparr>world_map := example_map\<lparr>get_layers := [\<lparr>default_images = [9]\<rparr>]\<rparr>\<rparr>"

definition left_camera :: camera where
  "left_camera = example_camera\<lparr>get_current_x := - 1\<rparr>"

definition left_world :: world where
  "left_world = example_world\<lparr>cameras := [left_camera]\<rparr>"

text \<open>The error of a result, when it is one.\<close>

definition error_of :: "error + 'a \<Rightarrow> error option" where
  "error_of r = (case r of Inl e \<Rightarrow> Some e | Inr v \<Rightarrow> None)"

section \<open>Invariants of the packing loop\<close>

text \<open>
  A glyph already visited, seen from the locals \<open>s\<close>: its rectangle has the size of its
  surface and a corner that is not negative; on the texture being filled it lies inside
  the width and height reached so far, and either above the current row or in the row,
  left of the cursor and no taller than the row; on an earlier texture it lies inside the
  rectangle pushed for it.
\<close>

definition placed_ok :: "pack_state \<Rightarrow> glyph_info \<Rightarrow> bool" where
  "placed_ok s g =
     (rect_w (srcrect g) = surface_w g \<and> rect_h (srcrect g) = surface_h g \<and>
      0 \<le> rect_x (srcrect g) \<and> 0 \<le> rect_y (srcrect g) \<and>
      texture_index g \<le> pk_texture_index s \<and>
      (if texture_index g = pk_texture_index s
       then rect_x (srcrect g) + rect_w (srcrect g) \<le> pk_texture_width s \<and>
            rect_y (srcrect g) + rect_h (srcrect g) \<le> pk_texture_height s \<and>
            (rect_y (srcrect g) + rect_h (srcrect g) \<le> pk_y s \<or>
             rect_y (srcrect g) = pk_y s \<and>
             rect_x (srcrect g) + rect_w (srcrect g) \<le> pk_x s \<and>
             rect_h (srcrect g) \<le> pk_row_height s)
       else rect_inside (srcrect g) (pk_textures s ! texture_index g)))"

text \<open>The cursor and the row lie inside the texture being filled.\<close>

definition cursor_ok :: "pack_state \<Rightarrow> bool" where
  "cursor_ok s =
     (0 \<le> pk_x s \<and> 0 \<le> pk_y s \<and> 0 \<le> pk_row_height s \<and>
      pk_x s \<le> pk_texture_width s \<and>
      pk_y s + pk_row_height s \<le> pk_texture_height s \<and>
      length (pk_textures s) = pk_texture_index s)"

text \<open>Two glyphs of one texture do not overlap.\<close>

definition apart :: "char \<times> glyph_info \<Rightarrow> char \<times> glyph_info \<Rightarrow> bool" where
  "apart a b =
     (texture_index (snd a) = texture_index (snd b) \<longrightarrow>
      \<not> rects_overlap (srcrect (snd a)) (srcrect (snd b)))"

definition pack_invar :: "(char \<times> glyph_info) list \<times> pack_state \<Rightarrow> bool" where
  "pack_invar acc =
     (cursor_ok (snd acc) \<and>
      (fst acc \<noteq> [] \<longrightarrow> 0 < pk_texture_width (snd acc) \<and> 0 < pk_texture_height (snd acc)) \<and>
      (\<forall>cg \<in> set (fst acc). placed_ok (snd acc) (snd cg)) \<and>
      sorted_wrt apart (fst acc))"

text \<open>What identifies a glyph of the input: its character and the size of its surface.\<close>

definition surface_of :: "char \<times> glyph_info \<Rightarrow> char \<times> int \<times> int" where
  "surface_of cg = (fst cg, surface_w (snd cg), surface_h (snd cg))"

text \<open>
  No size exceeds the maximum, and the first texture is lower than the maximum: the
  texture being filled while none is pushed, the first one pushed afterwards.
\<close>

definition sizes_ok :: "pack_state \<Rightarrow> bool" where
  "sizes_ok s =
     (pk_texture_width s \<le> max_texture_width \<and>
      pk_texture_height s \<le> max_texture_height \<and>
      pk_row_height s \<le> max_texture_height \<and>
      pk_y s + pk_row_height s \<le> pk_texture_height s \<and>
      (\<forall>t \<in> set (pk_textures s). rect_w t \<le> max_texture_width \<and> rect_h t \<le> max_texture_height) \<and>
      (if pk_textures s = [] then pk_texture_height s < max_texture_height
       else rect_h (pk_textures s ! 0) < max_texture_height))"

text \<open>
  The \<open>int\<close> arithmetic of the routine is taken on the integers. It is the arithmetic
  of the source as long as no sum leaves the range of \<open>int\<close>: \<open>sums_fit\<close> says so for
  the sums that the loop body computes for one glyph (lines 133, 135, 141, 158 and 162),
  \<open>pack_fits\<close> for a whole run of the loop.
\<close>

definition int_range :: "int \<Rightarrow> bool" where
  "int_range v = (- 2147483648 \<le> v \<and> v \<le> 2147483647)"

definition sums_fit :: "glyph_info \<Rightarrow> pack_state \<Rightarrow> bool" where
  "sums_fit glyph s =
     (int_range (pk_x (grow_row glyph s) + surface_w glyph) \<and>
      (pk_x (grow_row glyph s) + surface_w glyph < max_texture_width \<or>
       int_range (pk_y (grow_row glyph s) + pk_row_height (grow_row glyph s))) \<and>
      int_range (pk_y (wrap_row glyph (grow_row glyph s)) + surface_h glyph) \<and>
      int_range (pk_x (before_place glyph s) + surface_w glyph) \<and>
      int_range (pk_y (before_place glyph s) + pk_row_height (before_place glyph s)))"

fun pack_fits :: "(char \<times> glyph_info) list \<Rightarrow> pack_state \<Rightarrow> bool" where
  "pack_fits [] s = True"
| "pack_fits (cg # rest) s =
     (sums_fit (snd cg) s \<and> pack_fits rest (snd (pack_glyph (snd cg) s)))"

text \<open>
  A width and height up to which every sum fits: \<open>2 * 1073740800 + 2047\<close> is the
  largest \<open>int\<close>. With such surfaces the cursor stays in the reach below.
\<close>

definition largest_surface :: int where
  "largest_surface = 1073740800"

definition reach_ok :: "pack_state \<Rightarrow> bool" where
  "reach_ok s =
     (0 \<le> pk_x s \<and> pk_x s \<le> largest_surface \<and>
      0 \<le> pk_y s \<and> pk_y s < max_texture_height \<and>
      0 \<le> pk_row_height s \<and> pk_row_height s \<le> largest_surface)"

text \<open>
  A glyph as \<open>generate_glyph_surfaces\<close> stores it, and a font of four glyphs whose
  heights add up to more than one texture.
\<close>

definition glyph :: "int \<Rightarrow> int \<Rightarrow> glyph_info" where
  "glyph w h =
     \<lparr>surface_w = w, surface_h = h,
      srcrect = \<lparr>rect_x = 0, rect_y = 0, rect_w = w, rect_h = h\<rparr>, texture_index = 0\<rparr>"

definition tall_font :: bitmap_font_info where
  "tall_font =
     \<lparr>glyphs = [(CHR ''a'', glyph 1100 1000), (CHR ''b'', glyph 1100 1000),
                (CHR ''c'', glyph 1100 1000), (CHR ''d'', glyph 900 500)],
      textures = []\<rparr>"

section \<open>The selection\<close>

text \<open>
  C3, as the code has it: \<open>has_selection\<close> is false exactly when at least one coordinate
  of the stored selection is the maximum \<open>int\<close>, which covers the sentinel pair and
  every pair with one such coordinate; \<open>reset_selection\<close> stores the sentinel pair, for
  which \<open>has_selection\<close> is false.
\<close>

theorem has_selection_false_iff_some_coordinate_max:
  "(\<not> has_selection w) =
     (fst (get_selection w) = INT_MAX \<or> snd (get_selection w) = INT_MAX) \<and>
   get_selection (reset_selection w) = no_selection \<and>
   \<not> has_selection (reset_selection w) \<and>
   \<not> has_selection (set_selection no_selection w)"
  by (auto simp: has_selection_def get_selection_def reset_selection_def set_selection_def
      no_selection_def)

text \<open>
  C3 as stated fails: with the selection \<open>(INT_MAX, 0)\<close>, which is not the sentinel pair,
  \<open>has_selection\<close> is false.
\<close>

theorem has_selection_one_coordinate_max_counterexample:
  "\<not> has_selection (set_selection (INT_MAX, 0) example_world) \<and>
   get_selection (set_selection (INT_MAX, 0) example_world) \<noteq> no_selection"
  by (simp add: has_selection_def get_selection_def set_selection_def no_selection_def INT_MAX_def)

section \<open>The visible region\<close>

lemma truncate_float_nonneg: "0 \<le> r \<Longrightarrow> truncate_float r = \<lfloor>r\<rfloor>"
  by (simp add: truncate_float_def)

lemma half_quotient:
  "0 < td \<Longrightarrow> (of_nat a :: rat) / (of_nat td / 2) = of_nat (2 * a) / of_nat td"
  by (simp add: field_simps)

lemma max_tiles_floor:
  assumes "0 < td" "vp + td < 4294967296" "- 1 < scroll"
    and "scroll + of_nat (vp + td) / (of_nat td / 2) + 1 < 4294967296"
    and "bound_exact scroll vp td"
  shows "max_tiles scroll vp td = Inr (nat \<lfloor>scroll + of_nat (vp + td) / (of_nat td / 2)\<rfloor> + 1)"
proof -
  let ?q = "of_nat (vp + td) / (of_nat td / 2) :: rat"
  have q: "2 \<le> ?q" using assms(1) by (simp add: field_simps)
  have pos: "0 \<le> scroll + ?q" using q assms(3) by linarith
  have "truncate_float (scroll + ?q + 1) = \<lfloor>scroll + ?q\<rfloor> + 1"
    using pos by (simp add: truncate_float_nonneg)
  moreover have "0 \<le> \<lfloor>scroll + ?q\<rfloor>" using pos by simp
  ultimately have "nat (truncate_float (scroll + ?q + 1)) = nat \<lfloor>scroll + ?q\<rfloor> + 1"
    by (simp add: nat_add_distrib)
  moreover have "- 1 < scroll + ?q + 1" using pos by linarith
  ultimately have conv: "float_to_unsigned (scroll + ?q + 1) = Inr (nat \<lfloor>scroll + ?q\<rfloor> + 1)"
    using assms(4) by (simp add: float_to_unsigned_def)
  have wrap: "(of_int ((int vp + int td) mod 4294967296) :: rat) = of_nat (vp + td)"
    using assms(2) by simp
  from assms(5) have e1: "round_float (of_nat (vp + td)) = of_nat (vp + td)"
    and e2: "round_float (of_nat td) = of_nat td"
    and e3: "round_float (of_nat td / 2) = of_nat td / 2"
    and e4: "round_float ?q = ?q"
    and e5: "round_float (scroll + ?q) = scroll + ?q"
    and e6: "round_float (scroll + ?q + 1) = scroll + ?q + 1"
    by (simp_all only: bound_exact_def exact_in_float_def)
  have "float_add (float_add scroll
          (float_div (round_float (of_int ((int vp + int td) mod 4294967296)))
             (float_div (round_float (of_nat td)) 2))) 1 = scroll + ?q + 1"
    by (simp only: wrap float_add_def float_div_def e1 e2 e3 e4 e5 e6)
  then show ?thesis
    using assms(1) conv by (simp only: max_tiles_def) simp
qed

lemma floor_integral_scroll:
  assumes "0 < td"
  shows "nat \<lfloor>(of_nat n :: rat) + of_nat a / (of_nat td / 2)\<rfloor> = n + (2 * a) div td"
proof -
  have "\<lfloor>(of_nat n :: rat) + of_nat a / (of_nat td / 2)\<rfloor>
      = \<lfloor>(of_nat n :: rat) + of_nat (2 * a) / of_nat td\<rfloor>"
    by (simp only: half_quotient [OF assms])
  also have "\<dots> = int n + \<lfloor>(of_nat (2 * a) :: rat) / of_nat td\<rfloor>"
    by (metis floor_add_int add.commute of_int_of_nat_eq)
  also have "\<dots> = int n + int ((2 * a) div td)"
    by (simp only: floor_divide_of_nat_eq)
  also have "\<dots> = int (n + (2 * a) div td)"
    by simp
  finally show ?thesis by (simp only: nat_int)
qed

text \<open>
  C5, as the code has it: the conversion to \<open>unsigned\<close> truncates the float sum. Where
  the float operations of the sum are exact, the maximum is
  \<open>floor(scroll + (viewport + tile) / (tile / 2)) + 1\<close>, clamped to the map; for an
  integral scroll position that is
  \<open>scroll + floor((viewport + tile) / (tile / 2)) + 1\<close>, with the floor of the quotient and
  not its ceiling. (Tile dimensions positive, scroll position above \<open>-1\<close>, no overflow
  of the unsigned sum or of the conversion.)
\<close>

theorem clamped_max_tiles_truncates:
  assumes "0 < get_tile_width m" and "0 < get_tile_height m"
    and "get_width cam + get_tile_width m < 4294967296"
    and "get_height cam + get_tile_height m < 4294967296"
    and "- 1 < get_current_x cam" and "- 1 < get_current_y cam"
    and "get_current_x cam
           + of_nat (get_width cam + get_tile_width m) / (of_nat (get_tile_width m) / 2) + 1
         < 4294967296"
    and "get_current_y cam
           + of_nat (get_height cam + get_tile_height m) / (of_nat (get_tile_height m) / 2) + 1
         < 4294967296"
    and "bound_exact (get_current_x cam) (get_width cam) (get_tile_width m)"
    and "bound_exact (get_current_y cam) (get_height cam) (get_tile_height m)"
  shows "clamped_max_tiles cam m =
      Inr (min (nat \<lfloor>get_current_x cam
                  + of_nat (get_width cam + get_tile_width m) / (of_nat (get_tile_width m) / 2)\<rfloor> + 1)
               (get_map_width m),
           min (nat \<lfloor>get_current_y cam
                  + of_nat (get_height cam + get_tile_height m) / (of_nat (get_tile_height m) / 2)\<rfloor> + 1)
               (get_map_height m)) \<and>
     (\<forall>n k. get_current_x cam = of_nat n \<and> get_current_y cam = of_nat k \<longrightarrow>
        clamped_max_tiles cam m =
          Inr (min (n + (2 * (get_width cam + get_tile_width m)) div get_tile_width m + 1)
                   (get_map_width m),
               min (k + (2 * (get_height cam + get_tile_height m)) div get_tile_height m + 1)
                   (get_map_height m)))"
proof -
  have h: "max_tiles (get_current_x cam) (get_width cam) (get_tile_width m) =
      Inr (nat \<lfloor>get_current_x cam
                  + of_nat (get_width cam + get_tile_width m) / (of_nat (get_tile_width m) / 2)\<rfloor> + 1)"
    by (rule max_tiles_floor) (use assms in simp_all)
  have v: "max_tiles (get_current_y cam) (get_height cam) (get_tile_height m) =
      Inr (nat \<lfloor>get_current_y cam
                  + of_nat (get_height cam + get_tile_height m) / (of_nat (get_tile_height m) / 2)\<rfloor> + 1)"
    by (rule max_tiles_floor) (use assms in simp_all)
  have general: "clamped_max_tiles cam m =
      Inr (min (nat \<lfloor>get_current_x cam
                  + of_nat (get_width cam + get_tile_width m) / (of_nat (get_tile_width m) / 2)\<rfloor> + 1)
               (get_map_width m),
           min (nat \<lfloor>get_current_y cam
                  + of_nat (get_height cam + get_tile_height m) / (of_nat (get_tile_height m) / 2)\<rfloor> + 1)
               (get_map_height m))"
    by (simp only: clamped_max_tiles_def h v sum.case)
  show ?thesis
  proof (intro conjI allI impI)
    show "clamped_max_tiles cam m =
      Inr (min (nat \<lfloor>get_current_x cam
                  + of_nat (get_width cam + get_tile_width m) / (of_nat (get_tile_width m) / 2)\<rfloor> + 1)
               (get_map_width m),
           min (nat \<lfloor>get_current_y cam
                  + of_nat (get_height cam + get_tile_height m) / (of_nat (get_tile_height m) / 2)\<rfloor> + 1)
               (get_map_height m))"
      by (rule general)
  next
    fix n k
    assume "get_current_x cam = of_nat n \<and> get_current_y cam = of_nat k"
    then show "clamped_max_tiles cam m =
          Inr (min (n + (2 * (get_width cam + get_tile_width m)) div get_tile_width m + 1)
                   (get_map_width m),
               min (k + (2 * (get_height cam + get_tile_height m)) div get_tile_height m + 1)
                   (get_map_height m))"
      by (simp only: general floor_integral_scroll [OF assms(1)] floor_integral_scroll [OF assms(2)])
  qed
qed

text \<open>
  The theorem at the viewport of 100 by 100 pixels at scroll position (0, 0): the maxima
  are \<open>0 + 5 + 1 = 6\<close> columns and \<open>0 + 8 + 1 = 9\<close> rows.
\<close>

theorem clamped_max_tiles_truncates_witness:
  "clamped_max_tiles small_camera wide_map = Inr (6, 9)"
proof -
  have 1: "0 < get_tile_width wide_map" "0 < get_tile_height wide_map"
    by (simp_all add: wide_map_def example_map_def)
  have 2: "get_width small_camera + get_tile_width wide_map < 4294967296"
     "get_height small_camera + get_tile_height wide_map < 4294967296"
    by (simp_all add: small_camera_def wide_map_def example_map_def)
  have 3: "- 1 < get_current_x small_camera" "- 1 < get_current_y small_camera"
    by (simp_all add: small_camera_def)
  have 4: "get_current_x small_camera
           + of_nat (get_width small_camera + get_tile_width wide_map)
             / (of_nat (get_tile_width wide_map) / 2) + 1
         < 4294967296"
    by (simp add: small_camera_def wide_map_def example_map_def)
  have 5: "get_current_y small_camera
           + of_nat (get_height small_camera + get_tile_height wide_map)
             / (of_nat (get_tile_height wide_map) / 2) + 1
         < 4294967296"
    by (simp add: small_camera_def wide_map_def example_map_def)
  have "bound_exact 0 100 64" and "bound_exact 0 100 32"
    by code_simp+
  then have 6: "bound_exact (get_current_x small_camera) (get_width small_camera)
        (get_tile_width wide_map)"
    and 7: "bound_exact (get_current_y small_camera) (get_height small_camera)
        (get_tile_height wide_map)"
    by (simp_all add: small_camera_def wide_map_def example_map_def)
  have 8: "get_current_x small_camera = of_nat 0 \<and> get_current_y small_camera = of_nat 0"
    by (simp add: small_camera_def)
  show ?thesis
    using clamped_max_tiles_truncates [OF 1 2 3 4 5 6 7, THEN conjunct2, rule_format, OF 8]
    by (simp add: small_camera_def wide_map_def example_map_def)
qed

text \<open>
  Where an operation rounds, the floor of the exact sum is not what the code computes:
  at the scroll position \<open>2.6f\<close> with a viewport of 320 and tiles of 100 pixels the
  exact sum is below 11 and the float sum \<open>2.6f + 8.4f\<close> is 11, so the maximum is 12.
\<close>

lemma max_tiles_rounds:
  "round_float (13 / 5) = 5452595 / 2097152 \<and>
   \<not> bound_exact (round_float (13 / 5)) 320 100 \<and>
   \<lfloor>round_float (13 / 5) + of_nat (320 + 100) / (of_nat 100 / 2 :: rat)\<rfloor> + 1 = 11 \<and>
   max_tiles (round_float (13 / 5)) 320 100 = Inr 12"
  by code_simp

text \<open>
  C5 as stated fails: there the code iterates up to column 6 and row 9, the formula of
  the specification, with the ceiling of the quotient, gives 7 and 10.
\<close>

theorem clamped_max_tiles_ceiling_counterexample:
  "clamped_max_tiles small_camera wide_map = Inr (6, 9) \<and>
   spec_max_tiles (get_current_x small_camera) (get_width small_camera)
     (get_tile_width wide_map) (get_map_width wide_map) = 7 \<and>
   spec_max_tiles (get_current_y small_camera) (get_height small_camera)
     (get_tile_height wide_map) (get_map_height wide_map) = 10"
  by code_simp

section \<open>The loops of render\<close>

lemma for_each_invariant:
  assumes "for_each body vs s = Inr s'" and "I s"
    and "\<And>v t t'. v \<in> set vs \<Longrightarrow> I t \<Longrightarrow> body v t = Inr t' \<Longrightarrow> I t'"
  shows "I s'"
  using assms
proof (induction vs arbitrary: s)
  case Nil
  then show ?case by simp
next
  case (Cons v vs)
  from Cons.prems(1) obtain t where t: "body v s = Inr t" and rest: "for_each body vs t = Inr s'"
    by (auto split: sum.splits)
  have "I t" using Cons.prems(3) [of v s t] Cons.prems(2) t by simp
  show ?case
  proof (rule Cons.IH [OF rest \<open>I t\<close>])
    fix u t1 t2
    assume "u \<in> set vs" "I t1" "body u t1 = Inr t2"
    then show "I t2" using Cons.prems(3) [of u t1 t2] by simp
  qed
qed

lemma float_range_bounds: "t \<in> set (float_range c m) \<Longrightarrow> c \<le> t \<and> t < of_nat m"
proof (induction c m rule: float_range.induct)
  case (1 c m)
  show ?case
  proof (cases "c < of_nat m")
    case True
    with "1.prems" have "t = c \<or> t \<in> set (float_range (c + 1) m)"
      by (subst (asm) float_range.simps) simp
    then show ?thesis using "1.IH" [OF True] True by auto
  next
    case False
    with "1.prems" show ?thesis by (subst (asm) float_range.simps) simp
  qed
qed

subsection \<open>set_image_id\<close>

lemma set_image_id_static [simp]:
  "get_layers (set_image_id m k l i) = get_layers m"
  "images (set_image_id m k l i) = images m"
  "selection_image (set_image_id m k l i) = selection_image m"
  "get_map_width (set_image_id m k l i) = get_map_width m"
  "get_map_height (set_image_id m k l i) = get_map_height m"
  by (simp_all add: set_image_id_def split: option.splits)

lemma get_image_id_set_image_id:
  "get_image_id (set_image_id m k l i) k' l' =
     (if k' = k \<and> l' = l \<and> tiles m k \<noteq> None then Some i else get_image_id m k' l')"
  by (auto simp: set_image_id_def get_image_id_def split: option.splits)

lemma tiles_set_image_id_None [simp]:
  "tiles (set_image_id m k l i) k' = None \<longleftrightarrow> tiles m k' = None"
  by (auto simp: set_image_id_def split: option.splits)

lemma layer_has_default_images_set_image_id [simp]:
  "layer_has_default_images (set_image_id m k l i) l' = layer_has_default_images m l'"
  by (simp add: layer_has_default_images_def)


subsection \<open>One layer of one tile\<close>

lemma draw_tile_fields [simp]:
  "rs_map (draw_tile ct p l img s) = rs_map s"
  "rs_selection (draw_tile ct p l img s) = rs_selection s"
  "tile_reads (draw_tile ct p l img s) = tile_reads s"
  by (simp_all add: draw_tile_def split: option.splits)

lemma select_tile_fields [simp]:
  "rs_map (fst (select_tile E p sb)) = rs_map (fst sb)"
  "tile_reads (fst (select_tile E p sb)) = tile_reads (fst sb)"
  "rs_selection (fst (select_tile E p sb)) = (if hittest E p then p else rs_selection (fst sb))"
  by (simp_all add: select_tile_def)

lemma draw_selection_fields [simp]:
  "rs_map (fst (draw_selection p l sb)) = rs_map (fst sb)"
  "tile_reads (fst (draw_selection p l sb)) = tile_reads (fst sb)"
  "rs_selection (fst (draw_selection p l sb)) = rs_selection (fst sb)"
  by (simp_all add: draw_selection_def)

text \<open>The three outcomes of resolve_image.\<close>

lemma resolve_image_cases:
  assumes "resolve_image E ct l s = Inr r"
  obtains
    (explicit) k i where "ct = Some k" "get_image_id (rs_map s) k l = Some i"
        "r = Some (get_image (rs_map s) i, s)"
  | (default) k img where "ct = Some k" "get_image_id (rs_map s) k l = None"
        "layer_has_default_images (rs_map s) l"
        "get_image (rs_map s)
           (get_random_layer_default_image (rs_map s) l (random E (random_drawn s))) = Some img"
        "r = Some (Some img,
           s\<lparr>rs_map := set_image_id (rs_map s) k l (image_id img),
             random_drawn := Suc (random_drawn s)\<rparr>)"
  | (skip) "\<not> layer_has_default_images (rs_map s) l" "r = None"
       "\<forall>k. ct = Some k \<longrightarrow> get_image_id (rs_map s) k l = None"
  using assms
  by (auto simp: resolve_image_def split: option.splits if_splits)


lemma render_layer_cases:
  assumes "render_layer E ct p l sb = Inr sb'"
  obtains
    (skip) "resolve_image E ct l (fst sb) = Inr None" "sb' = sb"
  | (drawn) img s1 where "resolve_image E ct l (fst sb) = Inr (Some (img, s1))"
      "sb' = draw_selection p l (select_tile E p (draw_tile ct p l img s1, snd sb))"
  using assms
  by (auto simp: render_layer_def split: sum.splits option.splits)

lemma render_layer_reads:
  assumes "render_layer E ct p l sb = Inr sb'"
  shows "tile_reads (fst sb') = tile_reads (fst sb)"
  using assms
  by (elim render_layer_cases resolve_image_cases) auto

lemma render_layer_static:
  assumes "render_layer E ct p l sb = Inr sb'"
  shows "get_layers (rs_map (fst sb')) = get_layers (rs_map (fst sb))"
    and "images (rs_map (fst sb')) = images (rs_map (fst sb))"
    and "get_map_width (rs_map (fst sb')) = get_map_width (rs_map (fst sb))"
    and "get_map_height (rs_map (fst sb')) = get_map_height (rs_map (fst sb))"
    and "(tiles (rs_map (fst sb')) k' = None) = (tiles (rs_map (fst sb)) k' = None)"
  using assms
  by (elim render_layer_cases resolve_image_cases; auto)+

lemma render_layer_selection:
  assumes "render_layer E ct p l sb = Inr sb'"
  shows "rs_selection (fst sb') =
     (if hittest E p \<and>
         ((\<exists>k. ct = Some k \<and> has_image (rs_map (fst sb)) k l)
           \<or> layer_has_default_images (rs_map (fst sb)) l)
      then p else rs_selection (fst sb))"
  using assms
  by (elim render_layer_cases resolve_image_cases) (auto simp: has_image_def)

lemma render_layer_keeps_image_id:
  assumes "render_layer E ct p l sb = Inr sb'"
    and "get_image_id (rs_map (fst sb)) k' l' = Some i"
  shows "get_image_id (rs_map (fst sb')) k' l' = Some i"
  using assms
  by (elim render_layer_cases resolve_image_cases) (auto simp: get_image_id_set_image_id)

lemma render_layer_new_image_id:
  assumes "render_layer E ct p l sb = Inr sb'"
    and "get_image_id (rs_map (fst sb)) k' l' = None"
    and "get_image_id (rs_map (fst sb')) k' l' = Some i"
  shows "ct = Some k' \<and> l' = l \<and> layer_has_default_images (rs_map (fst sb)) l \<and>
     (\<exists>j \<in> set (default_images (get_layers (rs_map (fst sb)) ! l)).
        \<exists>img. get_image (rs_map (fst sb)) j = Some img \<and> i = image_id img)"
  using assms
  by (elim render_layer_cases resolve_image_cases)
     (auto simp: get_image_id_set_image_id get_random_layer_default_image_def
        layer_has_default_images_def split: if_splits)

lemma render_layer_assigns:
  assumes "render_layer E ct p l sb = Inr sb'"
    and "ct = Some k" and "tiles (rs_map (fst sb)) k \<noteq> None"
    and "layer_has_default_images (rs_map (fst sb)) l"
  shows "get_image_id (rs_map (fst sb')) k l \<noteq> None"
  using assms
  by (elim render_layer_cases resolve_image_cases) (auto simp: get_image_id_set_image_id)


subsection \<open>All layers of one tile\<close>

lemma render_layer_drawable:
  assumes "render_layer E ct p l sb = Inr sb'"
  shows "layer_drawable (rs_map (fst sb')) k' l' = layer_drawable (rs_map (fst sb)) k' l'"
proof (cases "get_image_id (rs_map (fst sb)) k' l'")
  case None
  show ?thesis
  proof (cases "get_image_id (rs_map (fst sb')) k' l'")
    case None
    with \<open>get_image_id (rs_map (fst sb)) k' l' = None\<close> show ?thesis
      by (simp add: layer_drawable_def has_image_def layer_has_default_images_def
          render_layer_static [OF assms])
  next
    case (Some i)
    from render_layer_new_image_id [OF assms \<open>get_image_id (rs_map (fst sb)) k' l' = None\<close> Some]
    have "layer_has_default_images (rs_map (fst sb)) l'" by simp
    then show ?thesis
      by (simp add: layer_drawable_def layer_has_default_images_def render_layer_static [OF assms])
  qed
next
  case (Some i)
  from render_layer_keeps_image_id [OF assms Some] Some show ?thesis
    by (simp add: layer_drawable_def has_image_def)
qed

lemma points_to_get_tile: "points_to (get_tile m ux uy) (ux, uy) m"
  by (simp add: points_to_def get_tile_def split: option.splits)

lemma render_layer_points_to:
  assumes "render_layer E ct p l sb = Inr sb'" and "points_to ct k (rs_map (fst sb))"
  shows "points_to ct k (rs_map (fst sb'))"
  using assms(2) render_layer_static(5) [OF assms(1), of k] by (simp add: points_to_def)

lemma render_layer_selection_drawable:
  assumes "render_layer E ct p l sb = Inr sb'" and "points_to ct k (rs_map (fst sb))"
  shows "rs_selection (fst sb') =
     (if hittest E p \<and> layer_drawable (rs_map (fst sb)) k l then p else rs_selection (fst sb))"
proof -
  have "(\<exists>k'. ct = Some k' \<and> has_image (rs_map (fst sb)) k' l) = has_image (rs_map (fst sb)) k l"
    using assms(2)
    by (cases "tiles (rs_map (fst sb)) k") (simp_all add: points_to_def has_image_def get_image_id_def)
  then show ?thesis
    by (simp add: render_layer_selection [OF assms(1)] layer_drawable_def)
qed

lemma render_layers_invariant:
  assumes "for_each (render_layer E ct p) ls sb = Inr sb'" and "I sb"
    and "\<And>l t t'. l \<in> set ls \<Longrightarrow> I t \<Longrightarrow> render_layer E ct p l t = Inr t' \<Longrightarrow> I t'"
  shows "I sb'"
  using assms by (rule for_each_invariant)

lemma render_layers_reads:
  assumes "for_each (render_layer E ct p) ls sb = Inr sb'"
  shows "tile_reads (fst sb') = tile_reads (fst sb)"
  by (rule for_each_invariant [OF assms, where I = "\<lambda>t. tile_reads (fst t) = tile_reads (fst sb)"])
     (simp_all add: render_layer_reads)

lemma render_layers_static:
  assumes "for_each (render_layer E ct p) ls sb = Inr sb'"
  shows "get_layers (rs_map (fst sb')) = get_layers (rs_map (fst sb)) \<and>
     images (rs_map (fst sb')) = images (rs_map (fst sb)) \<and>
     get_map_width (rs_map (fst sb')) = get_map_width (rs_map (fst sb)) \<and>
     get_map_height (rs_map (fst sb')) = get_map_height (rs_map (fst sb)) \<and>
     (\<forall>k'. (tiles (rs_map (fst sb')) k' = None) = (tiles (rs_map (fst sb)) k' = None))"
  by (rule for_each_invariant [OF assms, where I = "\<lambda>t.
       get_layers (rs_map (fst t)) = get_layers (rs_map (fst sb)) \<and>
       images (rs_map (fst t)) = images (rs_map (fst sb)) \<and>
       get_map_width (rs_map (fst t)) = get_map_width (rs_map (fst sb)) \<and>
       get_map_height (rs_map (fst t)) = get_map_height (rs_map (fst sb)) \<and>
       (\<forall>k'. (tiles (rs_map (fst t)) k' = None) = (tiles (rs_map (fst sb)) k' = None))"])
     (simp_all add: render_layer_static)

lemma render_layers_keeps_image_id:
  assumes "for_each (render_layer E ct p) ls sb = Inr sb'"
    and "get_image_id (rs_map (fst sb)) k' l' = Some i"
  shows "get_image_id (rs_map (fst sb')) k' l' = Some i"
  by (rule for_each_invariant [OF assms(1), where I = "\<lambda>t. get_image_id (rs_map (fst t)) k' l' = Some i"])
     (simp_all add: assms(2) render_layer_keeps_image_id)

lemma render_layers_drawable:
  assumes "for_each (render_layer E ct p) ls sb = Inr sb'"
  shows "layer_drawable (rs_map (fst sb')) k' l' = layer_drawable (rs_map (fst sb)) k' l'"
  by (rule for_each_invariant [OF assms, where I = "\<lambda>t.
        layer_drawable (rs_map (fst t)) k' l' = layer_drawable (rs_map (fst sb)) k' l'"])
     (simp_all add: render_layer_drawable)

lemma render_layers_points_to:
  assumes "for_each (render_layer E ct p) ls sb = Inr sb'" and "points_to ct k (rs_map (fst sb))"
  shows "points_to ct k (rs_map (fst sb'))"
proof -
  have "(tiles (rs_map (fst sb')) k = None) = (tiles (rs_map (fst sb)) k = None)"
    using render_layers_static [OF assms(1)] by blast
  then show ?thesis using assms(2) by (simp add: points_to_def)
qed

lemma render_layers_selection:
  assumes "for_each (render_layer E ct p) ls sb = Inr sb'" and "points_to ct k (rs_map (fst sb))"
  shows "rs_selection (fst sb') =
     (if hittest E p \<and> list_ex (layer_drawable (rs_map (fst sb)) k) ls then p
      else rs_selection (fst sb))"
  using assms
proof (induction ls arbitrary: sb)
  case Nil
  then show ?case by simp
next
  case (Cons l ls)
  from Cons.prems(1) obtain t where t: "render_layer E ct p l sb = Inr t"
    and rest: "for_each (render_layer E ct p) ls t = Inr sb'"
    by (auto split: sum.splits)
  have pt: "points_to ct k (rs_map (fst t))"
    by (rule render_layer_points_to [OF t Cons.prems(2)])
  have same: "layer_drawable (rs_map (fst t)) k = layer_drawable (rs_map (fst sb)) k"
    by (rule ext) (rule render_layer_drawable [OF t])
  show ?case
    by (auto simp: Cons.IH [OF rest pt] same render_layer_selection_drawable [OF t Cons.prems(2)])
qed

lemma render_layer_default_needs_tile:
  assumes "render_layer E ct p l sb = Inr sb'"
    and "layer_has_default_images (rs_map (fst sb)) l"
  shows "ct \<noteq> None"
  using assms
  by (elim render_layer_cases resolve_image_cases) auto

lemma render_layers_assigns:
  assumes "for_each (render_layer E ct p) ls sb = Inr sb'" and "points_to ct k (rs_map (fst sb))"
    and "l \<in> set ls" and "layer_has_default_images (rs_map (fst sb)) l"
  shows "get_image_id (rs_map (fst sb')) k l \<noteq> None"
  using assms
proof (induction ls arbitrary: sb)
  case Nil
  then show ?case by simp
next
  case (Cons v ls)
  from Cons.prems(1) obtain t where t: "render_layer E ct p v sb = Inr t"
    and rest: "for_each (render_layer E ct p) ls t = Inr sb'"
    by (auto split: sum.splits)
  have pt: "points_to ct k (rs_map (fst t))"
    by (rule render_layer_points_to [OF t Cons.prems(2)])
  have dflt: "layer_has_default_images (rs_map (fst t)) l"
    using Cons.prems(4) by (simp add: layer_has_default_images_def render_layer_static [OF t])
  show ?case
  proof (cases "l = v")
    case True
    have "ct \<noteq> None"
      using render_layer_default_needs_tile [OF t] Cons.prems(4) True by simp
    then have "ct = Some k" and "tiles (rs_map (fst sb)) k \<noteq> None"
      using Cons.prems(2) by (auto simp: points_to_def split: if_splits)
    then have "get_image_id (rs_map (fst t)) k l \<noteq> None"
      using render_layer_assigns [OF t] Cons.prems(4) True by simp
    then obtain i where "get_image_id (rs_map (fst t)) k l = Some i" by auto
    from render_layers_keeps_image_id [OF rest this] show ?thesis by simp
  next
    case False
    then have "l \<in> set ls" using Cons.prems(3) by simp
    from Cons.IH [OF rest pt this dflt] show ?thesis .
  qed
qed

lemma render_layers_new_image_id:
  assumes "for_each (render_layer E ct p) ls sb = Inr sb'"
    and "get_image_id (rs_map (fst sb)) k' l' = None"
    and "get_image_id (rs_map (fst sb')) k' l' = Some i"
  shows "ct = Some k' \<and> l' \<in> set ls \<and> layer_has_default_images (rs_map (fst sb)) l' \<and>
     (\<exists>j \<in> set (default_images (get_layers (rs_map (fst sb)) ! l')).
        \<exists>img. get_image (rs_map (fst sb)) j = Some img \<and> i = image_id img)"
  using assms
proof (induction ls arbitrary: sb)
  case Nil
  then show ?case by simp
next
  case (Cons v ls)
  from Cons.prems(1) obtain t where t: "render_layer E ct p v sb = Inr t"
    and rest: "for_each (render_layer E ct p) ls t = Inr sb'"
    by (auto split: sum.splits)
  note st = render_layer_static [OF t]
  show ?case
  proof (cases "get_image_id (rs_map (fst t)) k' l'")
    case None
    from Cons.IH [OF rest None Cons.prems(3)] show ?thesis
      by (simp add: st layer_has_default_images_def get_image_def)
  next
    case (Some i')
    from render_layers_keeps_image_id [OF rest Some] Cons.prems(3) have "i' = i" by simp
    with render_layer_new_image_id [OF t Cons.prems(2)] Some show ?thesis by simp
  qed
qed

subsection \<open>One tile\<close>

lemma truncate_float_ge0: "- 1 < r \<Longrightarrow> 0 \<le> truncate_float r"
  by (simp add: truncate_float_def)

lemma float_to_unsigned_less:
  assumes "float_to_unsigned t = Inr u" and "0 \<le> t" and "t < of_nat m"
  shows "u < m"
proof -
  have u: "u = nat \<lfloor>t\<rfloor>"
    using assms(1,2) by (simp add: float_to_unsigned_def truncate_float_def split: if_splits)
  have "\<lfloor>t\<rfloor> < int m" using assms(3) by (simp add: floor_less_iff)
  moreover have "0 \<le> \<lfloor>t\<rfloor>" using assms(2) by simp
  ultimately show ?thesis by (simp add: u nat_less_iff)
qed

lemma float_to_unsigned_le:
  assumes "float_to_unsigned t = Inr u" and "t < of_nat m"
  shows "u \<le> m"
proof (cases "0 \<le> t")
  case True
  then show ?thesis using float_to_unsigned_less [OF assms(1) True assms(2)] by simp
next
  case False
  then have "truncate_float t \<le> 0" by (simp add: truncate_float_def)
  then show ?thesis
    using assms(1) by (simp add: float_to_unsigned_def split: if_splits)
qed

lemma float_conversions_agree:
  assumes "float_to_unsigned t = Inr u" and "float_to_int t = Inr p"
  shows "p = int u"
  using assms truncate_float_ge0 [of t]
  by (auto simp: float_to_unsigned_def float_to_int_def split: if_splits)

lemma render_tile_cases:
  assumes "render_tile E ty tx s = Inr s'"
  obtains ux uy sb where
    "float_to_unsigned tx = Inr ux" "float_to_unsigned ty = Inr uy"
    "for_each (render_layer E (get_tile (rs_map s) ux uy) (tile_point_of (ux, uy)))
       [0..<length (get_layers (rs_map s))]
       (s\<lparr>tile_reads := tile_reads s @ [(ux, uy)]\<rparr>, False) = Inr sb"
    "s' = fst sb"
proof -
  from assms obtain ux uy px py sb where c:
    "float_to_unsigned tx = Inr ux" "float_to_unsigned ty = Inr uy"
    "float_to_int tx = Inr px" "float_to_int ty = Inr py"
    "for_each (render_layer E (get_tile (rs_map s) ux uy) (px, py))
       [0..<length (get_layers (rs_map s))]
       (s\<lparr>tile_reads := tile_reads s @ [(ux, uy)]\<rparr>, False) = Inr sb"
    "s' = fst sb"
    by (auto simp: render_tile_def split: sum.splits)
  have "(px, py) = tile_point_of (ux, uy)"
    using float_conversions_agree [OF c(1,3)] float_conversions_agree [OF c(2,4)]
    by (simp add: tile_point_of_def)
  with c that show ?thesis by simp
qed

lemma render_tile_reads:
  assumes "render_tile E ty tx s = Inr s'"
  shows "\<exists>ux uy. float_to_unsigned tx = Inr ux \<and> float_to_unsigned ty = Inr uy \<and>
     tile_reads s' = tile_reads s @ [(ux, uy)]"
proof -
  from assms(1) obtain ux uy sb where c:
    "float_to_unsigned tx = Inr ux" "float_to_unsigned ty = Inr uy"
    "for_each (render_layer E (get_tile (rs_map s) ux uy) (tile_point_of (ux, uy)))
       [0..<length (get_layers (rs_map s))]
       (s\<lparr>tile_reads := tile_reads s @ [(ux, uy)]\<rparr>, False) = Inr sb"
    "s' = fst sb"
    by (rule render_tile_cases)
  show ?thesis
    using render_layers_reads [OF c(3)] c(1,2,4) by simp
qed

lemma render_tile_static:
  assumes "render_tile E ty tx s = Inr s'"
  shows "get_layers (rs_map s') = get_layers (rs_map s) \<and>
     images (rs_map s') = images (rs_map s) \<and>
     get_map_width (rs_map s') = get_map_width (rs_map s) \<and>
     get_map_height (rs_map s') = get_map_height (rs_map s) \<and>
     (\<forall>k'. (tiles (rs_map s') k' = None) = (tiles (rs_map s) k' = None))"
proof -
  from assms(1) obtain ux uy sb where c:
    "float_to_unsigned tx = Inr ux" "float_to_unsigned ty = Inr uy"
    "for_each (render_layer E (get_tile (rs_map s) ux uy) (tile_point_of (ux, uy)))
       [0..<length (get_layers (rs_map s))]
       (s\<lparr>tile_reads := tile_reads s @ [(ux, uy)]\<rparr>, False) = Inr sb"
    "s' = fst sb"
    by (rule render_tile_cases)
  show ?thesis
    using render_layers_static [OF c(3)] c(4) by simp
qed

lemma render_tile_keeps_image_id:
  assumes "render_tile E ty tx s = Inr s'" and "get_image_id (rs_map s) k l = Some i"
  shows "get_image_id (rs_map s') k l = Some i"
proof -
  from assms(1) obtain ux uy sb where c:
    "float_to_unsigned tx = Inr ux" "float_to_unsigned ty = Inr uy"
    "for_each (render_layer E (get_tile (rs_map s) ux uy) (tile_point_of (ux, uy)))
       [0..<length (get_layers (rs_map s))]
       (s\<lparr>tile_reads := tile_reads s @ [(ux, uy)]\<rparr>, False) = Inr sb"
    "s' = fst sb"
    by (rule render_tile_cases)
  show ?thesis
    using render_layers_keeps_image_id [OF c(3), of k l i] assms(2) c(4) by simp
qed

lemma render_tile_drawable:
  assumes "render_tile E ty tx s = Inr s'"
  shows "layer_drawable (rs_map s') k l = layer_drawable (rs_map s) k l"
proof -
  from assms(1) obtain ux uy sb where c:
    "float_to_unsigned tx = Inr ux" "float_to_unsigned ty = Inr uy"
    "for_each (render_layer E (get_tile (rs_map s) ux uy) (tile_point_of (ux, uy)))
       [0..<length (get_layers (rs_map s))]
       (s\<lparr>tile_reads := tile_reads s @ [(ux, uy)]\<rparr>, False) = Inr sb"
    "s' = fst sb"
    by (rule render_tile_cases)
  show ?thesis
    using render_layers_drawable [OF c(3), of k l] c(4) by simp
qed

lemma render_tile_new_image_id:
  assumes "render_tile E ty tx s = Inr s'"
    and "get_image_id (rs_map s) k l = None" and "get_image_id (rs_map s') k l = Some i"
  shows "l < length (get_layers (rs_map s)) \<and> layer_has_default_images (rs_map s) l \<and>
     (\<exists>j \<in> set (default_images (get_layers (rs_map s) ! l)).
        \<exists>img. get_image (rs_map s) j = Some img \<and> i = image_id img)"
proof -
  from assms(1) obtain ux uy sb where c:
    "for_each (render_layer E (get_tile (rs_map s) ux uy) (tile_point_of (ux, uy)))
       [0..<length (get_layers (rs_map s))]
       (s\<lparr>tile_reads := tile_reads s @ [(ux, uy)]\<rparr>, False) = Inr sb"
    "s' = fst sb"
    by (rule render_tile_cases)
  from render_layers_new_image_id [OF c(1), of k l i] assms(2,3) c(2) show ?thesis
    by simp
qed

lemma render_tile_assigns:
  assumes "render_tile E ty tx s = Inr s'"
    and "l < length (get_layers (rs_map s))" and "layer_has_default_images (rs_map s) l"
  shows "get_image_id (rs_map s') (last (tile_reads s')) l \<noteq> None"
proof -
  from assms(1) obtain ux uy sb where c:
    "for_each (render_layer E (get_tile (rs_map s) ux uy) (tile_point_of (ux, uy)))
       [0..<length (get_layers (rs_map s))]
       (s\<lparr>tile_reads := tile_reads s @ [(ux, uy)]\<rparr>, False) = Inr sb"
    "s' = fst sb"
    by (rule render_tile_cases)
  have "tile_reads s' = tile_reads s @ [(ux, uy)]"
    using render_layers_reads [OF c(1)] c(2) by simp
  moreover have "get_image_id (rs_map (fst sb)) (ux, uy) l \<noteq> None"
    by (rule render_layers_assigns [OF c(1)]) (use assms(2,3) in \<open>simp_all add: points_to_get_tile\<close>)
  ultimately show ?thesis using c(2) by simp
qed

lemma render_tile_selection:
  assumes "render_tile E ty tx s = Inr s'"
  shows "rs_selection s' =
     (if hittest E (tile_point_of (last (tile_reads s'))) \<and>
         list_ex (layer_drawable (rs_map s) (last (tile_reads s')))
           [0..<length (get_layers (rs_map s))]
      then tile_point_of (last (tile_reads s')) else rs_selection s)"
proof -
  from assms(1) obtain ux uy sb where c:
    "for_each (render_layer E (get_tile (rs_map s) ux uy) (tile_point_of (ux, uy)))
       [0..<length (get_layers (rs_map s))]
       (s\<lparr>tile_reads := tile_reads s @ [(ux, uy)]\<rparr>, False) = Inr sb"
    "s' = fst sb"
    by (rule render_tile_cases)
  have "tile_reads s' = tile_reads s @ [(ux, uy)]"
    using render_layers_reads [OF c(1)] c(2) by simp
  moreover have "rs_selection (fst sb) =
     (if hittest E (tile_point_of (ux, uy)) \<and>
         list_ex (layer_drawable (rs_map s) (ux, uy)) [0..<length (get_layers (rs_map s))]
      then tile_point_of (ux, uy) else rs_selection s)"
    using render_layers_selection [OF c(1), of "(ux, uy)"] by (simp add: points_to_get_tile)
  ultimately show ?thesis using c(2) by simp
qed

subsection \<open>The visible tiles\<close>

lemma render_tiles_invariant:
  assumes "render_tiles E cam maxima s = Inr s'" and "I s"
    and "\<And>tx ty t t'. tx \<in> set (float_range (get_current_x cam) (fst maxima)) \<Longrightarrow>
           ty \<in> set (float_range (get_current_y cam) (snd maxima)) \<Longrightarrow>
           I t \<Longrightarrow> render_tile E ty tx t = Inr t' \<Longrightarrow> I t'"
  shows "I s'"
proof (rule for_each_invariant [where I = I, OF assms(1) [unfolded render_tiles_def]])
  show "I s" by (rule assms(2))
next
  fix ty t t'
  assume ty: "ty \<in> set (float_range (get_current_y cam) (snd maxima))" and "I t"
    and row: "for_each (render_tile E ty) (float_range (get_current_x cam) (fst maxima)) t = Inr t'"
  show "I t'"
  proof (rule for_each_invariant [where I = I, OF row])
    show "I t" by fact
  next
    fix tx u u'
    assume tx: "tx \<in> set (float_range (get_current_x cam) (fst maxima))" and "I u"
      and step: "render_tile E ty tx u = Inr u'"
    show "I u'" by (rule assms(3) [OF tx ty \<open>I u\<close> step])
  qed
qed

lemma render_tiles_static:
  assumes "render_tiles E cam maxima s = Inr s'"
  shows "get_layers (rs_map s') = get_layers (rs_map s) \<and>
     images (rs_map s') = images (rs_map s) \<and>
     get_map_width (rs_map s') = get_map_width (rs_map s) \<and>
     get_map_height (rs_map s') = get_map_height (rs_map s) \<and>
     (\<forall>k'. (tiles (rs_map s') k' = None) = (tiles (rs_map s) k' = None))"
  by (rule render_tiles_invariant [OF assms, where I = "\<lambda>t.
       get_layers (rs_map t) = get_layers (rs_map s) \<and>
       images (rs_map t) = images (rs_map s) \<and>
       get_map_width (rs_map t) = get_map_width (rs_map s) \<and>
       get_map_height (rs_map t) = get_map_height (rs_map s) \<and>
       (\<forall>k'. (tiles (rs_map t) k' = None) = (tiles (rs_map s) k' = None))"])
     (simp, drule render_tile_static, simp)

lemma render_tiles_keeps_image_id:
  assumes "render_tiles E cam maxima s = Inr s'" and "get_image_id (rs_map s) k l = Some i"
  shows "get_image_id (rs_map s') k l = Some i"
  by (rule render_tiles_invariant [OF assms(1), where I = "\<lambda>t. get_image_id (rs_map t) k l = Some i"])
     (simp_all add: assms(2) render_tile_keeps_image_id)

lemma render_tiles_drawable:
  assumes "render_tiles E cam maxima s = Inr s'"
  shows "layer_drawable (rs_map s') k l = layer_drawable (rs_map s) k l"
  by (rule render_tiles_invariant [OF assms, where I = "\<lambda>t.
        layer_drawable (rs_map t) k l = layer_drawable (rs_map s) k l"])
     (simp_all add: render_tile_drawable)

lemma render_tiles_reads_less:
  assumes "render_tiles E cam maxima s = Inr s'"
    and "0 \<le> get_current_x cam" and "0 \<le> get_current_y cam"
    and "\<forall>k \<in> set (tile_reads s). fst k < fst maxima \<and> snd k < snd maxima"
  shows "\<forall>k \<in> set (tile_reads s'). fst k < fst maxima \<and> snd k < snd maxima"
proof (rule render_tiles_invariant [OF assms(1), where I = "\<lambda>t.
        \<forall>k \<in> set (tile_reads t). fst k < fst maxima \<and> snd k < snd maxima"])
  show "\<forall>k \<in> set (tile_reads s). fst k < fst maxima \<and> snd k < snd maxima"
    by (rule assms(4))
next
  fix tx ty t t'
  assume tx: "tx \<in> set (float_range (get_current_x cam) (fst maxima))"
    and ty: "ty \<in> set (float_range (get_current_y cam) (snd maxima))"
    and inv: "\<forall>k \<in> set (tile_reads t). fst k < fst maxima \<and> snd k < snd maxima"
    and step: "render_tile E ty tx t = Inr t'"
  from render_tile_reads [OF step] obtain ux uy where u:
    "float_to_unsigned tx = Inr ux" "float_to_unsigned ty = Inr uy"
    "tile_reads t' = tile_reads t @ [(ux, uy)]"
    by blast
  have "0 \<le> tx" "tx < of_nat (fst maxima)"
    using float_range_bounds [OF tx] assms(2) by simp_all
  then have "ux < fst maxima" by (rule float_to_unsigned_less [OF u(1)])
  moreover have "0 \<le> ty" "ty < of_nat (snd maxima)"
    using float_range_bounds [OF ty] assms(3) by simp_all
  then have "uy < snd maxima" by (rule float_to_unsigned_less [OF u(2)])
  ultimately show "\<forall>k \<in> set (tile_reads t'). fst k < fst maxima \<and> snd k < snd maxima"
    using inv u(3) by simp
qed

lemma render_tiles_reads_le:
  assumes "render_tiles E cam maxima s = Inr s'"
    and "\<forall>k \<in> set (tile_reads s). fst k \<le> fst maxima \<and> snd k \<le> snd maxima"
  shows "\<forall>k \<in> set (tile_reads s'). fst k \<le> fst maxima \<and> snd k \<le> snd maxima"
proof (rule render_tiles_invariant [OF assms(1), where I = "\<lambda>t.
        \<forall>k \<in> set (tile_reads t). fst k \<le> fst maxima \<and> snd k \<le> snd maxima"])
  show "\<forall>k \<in> set (tile_reads s). fst k \<le> fst maxima \<and> snd k \<le> snd maxima"
    by (rule assms(2))
next
  fix tx ty t t'
  assume tx: "tx \<in> set (float_range (get_current_x cam) (fst maxima))"
    and ty: "ty \<in> set (float_range (get_current_y cam) (snd maxima))"
    and inv: "\<forall>k \<in> set (tile_reads t). fst k \<le> fst maxima \<and> snd k \<le> snd maxima"
    and step: "render_tile E ty tx t = Inr t'"
  from render_tile_reads [OF step] obtain ux uy where u:
    "float_to_unsigned tx = Inr ux" "float_to_unsigned ty = Inr uy"
    "tile_reads t' = tile_reads t @ [(ux, uy)]"
    by blast
  have "ux \<le> fst maxima"
    using float_to_unsigned_le [OF u(1)] float_range_bounds [OF tx] by simp
  moreover have "uy \<le> snd maxima"
    using float_to_unsigned_le [OF u(2)] float_range_bounds [OF ty] by simp
  ultimately show "\<forall>k \<in> set (tile_reads t'). fst k \<le> fst maxima \<and> snd k \<le> snd maxima"
    using inv u(3) by simp
qed

lemma hit_tiles_snoc:
  "hit_tiles E m (ks @ [k]) =
     hit_tiles E m ks @
       (if hittest E (tile_point_of k) \<and> list_ex (layer_drawable m k) [0..<length (get_layers m)]
        then [k] else [])"
  by (simp add: hit_tiles_def)

lemma render_tiles_selection:
  assumes "render_tiles E cam maxima s = Inr s'" and "tile_reads s = []"
  shows "rs_selection s' = selection_of (rs_selection s) (hit_tiles E (rs_map s) (tile_reads s'))"
proof -
  let ?I = "\<lambda>t. get_layers (rs_map t) = get_layers (rs_map s) \<and>
       (\<forall>k l. layer_drawable (rs_map t) k l = layer_drawable (rs_map s) k l) \<and>
       rs_selection t = selection_of (rs_selection s) (hit_tiles E (rs_map s) (tile_reads t))"
  have "?I s'"
  proof (rule render_tiles_invariant [OF assms(1), where I = ?I])
    show "?I s" by (simp add: assms(2) hit_tiles_def selection_of_def)
  next
    fix tx ty t t'
    assume inv: "?I t" and step: "render_tile E ty tx t = Inr t'"
    from render_tile_reads [OF step] obtain ux uy where
      u: "tile_reads t' = tile_reads t @ [(ux, uy)]"
      by blast
    have same: "layer_drawable (rs_map t) (ux, uy) = layer_drawable (rs_map s) (ux, uy)"
      using inv by (intro ext) simp
    have "rs_selection t' =
       (if hittest E (tile_point_of (ux, uy)) \<and>
           list_ex (layer_drawable (rs_map s) (ux, uy)) [0..<length (get_layers (rs_map s))]
        then tile_point_of (ux, uy)
        else selection_of (rs_selection s) (hit_tiles E (rs_map s) (tile_reads t)))"
      using render_tile_selection [OF step] inv by (simp add: u same)
    then have "rs_selection t' =
        selection_of (rs_selection s) (hit_tiles E (rs_map s) (tile_reads t'))"
      by (simp add: u hit_tiles_snoc selection_of_def)
    moreover have "get_layers (rs_map t') = get_layers (rs_map s)"
      using render_tile_static [OF step] inv by simp
    moreover have "\<forall>k l. layer_drawable (rs_map t') k l = layer_drawable (rs_map s) k l"
      using render_tile_drawable [OF step] inv by simp
    ultimately show "?I t'" by simp
  qed
  then show ?thesis by simp
qed

lemma render_tiles_assigns:
  assumes "render_tiles E cam maxima s = Inr s'" and "tile_reads s = []"
    and "k \<in> set (tile_reads s')"
    and "l < length (get_layers (rs_map s))" and "layer_has_default_images (rs_map s) l"
  shows "get_image_id (rs_map s') k l \<noteq> None"
proof -
  let ?I = "\<lambda>t. get_layers (rs_map t) = get_layers (rs_map s) \<and>
       (\<forall>k \<in> set (tile_reads t). get_image_id (rs_map t) k l \<noteq> None)"
  have "?I s'"
  proof (rule render_tiles_invariant [OF assms(1), where I = ?I])
    show "?I s" by (simp add: assms(2))
  next
    fix tx ty t t'
    assume inv: "?I t" and step: "render_tile E ty tx t = Inr t'"
    from render_tile_reads [OF step] obtain ux uy where
      u: "tile_reads t' = tile_reads t @ [(ux, uy)]"
      by blast
    have l: "l < length (get_layers (rs_map t))" "layer_has_default_images (rs_map t) l"
      using inv assms(4,5) by (simp_all add: layer_has_default_images_def)
    have new: "get_image_id (rs_map t') (ux, uy) l \<noteq> None"
      using render_tile_assigns [OF step l] u by simp
    have old: "get_image_id (rs_map t') k' l \<noteq> None" if "k' \<in> set (tile_reads t)" for k'
    proof -
      from inv that obtain i where "get_image_id (rs_map t) k' l = Some i" by auto
      from render_tile_keeps_image_id [OF step this] show ?thesis by simp
    qed
    have "get_layers (rs_map t') = get_layers (rs_map s)"
      using render_tile_static [OF step] inv by simp
    then show "?I t'" using new old u by auto
  qed
  then show ?thesis using assms(3) by simp
qed

lemma render_tiles_new_image_id:
  assumes "render_tiles E cam maxima s = Inr s'"
    and "get_image_id (rs_map s) k l = None" and "get_image_id (rs_map s') k l = Some i"
  shows "\<exists>j \<in> set (default_images (get_layers (rs_map s) ! l)).
        \<exists>img. get_image (rs_map s) j = Some img \<and> i = image_id img"
proof -
  let ?P = "\<lambda>i. \<exists>j \<in> set (default_images (get_layers (rs_map s) ! l)).
        \<exists>img. get_image (rs_map s) j = Some img \<and> i = image_id img"
  let ?I = "\<lambda>t. get_layers (rs_map t) = get_layers (rs_map s) \<and>
       images (rs_map t) = images (rs_map s) \<and>
       (\<forall>i. get_image_id (rs_map t) k l = Some i \<longrightarrow> ?P i)"
  have "?I s'"
  proof (rule render_tiles_invariant [OF assms(1), where I = ?I])
    show "?I s" by (simp add: assms(2))
  next
    fix tx ty t t'
    assume inv: "?I t" and step: "render_tile E ty tx t = Inr t'"
    have st: "get_layers (rs_map t') = get_layers (rs_map s)" "images (rs_map t') = images (rs_map s)"
      using render_tile_static [OF step] inv by simp_all
    have "?P i'" if i': "get_image_id (rs_map t') k l = Some i'" for i'
    proof (cases "get_image_id (rs_map t) k l")
      case None
      from render_tile_new_image_id [OF step None i'] inv show ?thesis
        by (simp add: get_image_def)
    next
      case (Some i0)
      from render_tile_keeps_image_id [OF step Some] i' have "i0 = i'" by simp
      with inv Some show ?thesis by simp
    qed
    with st show "?I t'" by simp
  qed
  then show ?thesis using assms(3) by simp
qed

section \<open>Properties of render\<close>

lemma error_of_Some: "error_of r = Some e \<Longrightarrow> r = Inl e"
  by (simp add: error_of_def split: sum.splits)

lemma render_cases:
  assumes "render E w = Inr r"
  obtains
    (no_camera) "get_main_camera w = None" "r = (w, begin_render w)"
  | (camera) cam maxima s where "get_main_camera w = Some cam"
      "clamped_max_tiles cam (world_map w) = Inr maxima"
      "render_tiles E cam maxima (begin_render w) = Inr s"
      "r = (w\<lparr>world_map := rs_map s, selected_world_tile := rs_selection s,
               update_called := False\<rparr>,
            render_objects (objects w) s)"
  using assms
  by (auto simp: render_def split: option.splits sum.splits)

lemma begin_render_fields [simp]:
  "rs_map (begin_render w) = world_map w"
  "rs_selection (begin_render w) = selected_world_tile w"
  "tile_reads (begin_render w) = []"
  by (simp_all add: begin_render_def)

lemma render_objects_fields [simp]:
  "rs_map (render_objects objs s) = rs_map s"
  "rs_selection (render_objects objs s) = rs_selection s"
  "tile_reads (render_objects objs s) = tile_reads s"
  by (simp_all add: render_objects_def)

lemma clamped_max_tiles_le:
  assumes "clamped_max_tiles cam m = Inr maxima"
  shows "fst maxima \<le> get_map_width m" and "snd maxima \<le> get_map_height m"
  using assms by (auto simp: clamped_max_tiles_def split: sum.splits)

lemma float_range_converts:
  assumes "t \<in> set (float_range c n)" and "0 \<le> c" and "n \<le> w" and "w < 4294967296"
  shows "\<exists>i<w. float_to_unsigned t = Inr i"
proof -
  have b: "c \<le> t" "t < of_nat n" using float_range_bounds [OF assms(1)] by simp_all
  have "(of_nat n :: rat) \<le> of_nat w" using assms(3) by simp
  also have "\<dots> < 4294967296" using assms(4) by simp
  finally have "t < 4294967296" using b(2) by simp
  then have c: "float_to_unsigned t = Inr (nat (truncate_float t))"
    using b(1) assms(2) by (simp add: float_to_unsigned_def)
  have "nat (truncate_float t) < n"
    by (rule float_to_unsigned_less [OF c]) (use b assms(2) in simp_all)
  then show ?thesis using c assms(3) by auto
qed

text \<open>
  C1, as the code has it: the loops start at the scroll position and end below the
  maxima, which \<open>std::min\<close> clamps to the size of the map; the lower end is not
  clamped. With a scroll position that is not negative (and past the edge or not),
  every value of the loop variables converts to an index inside the map, whether or not
  the call completes, and every index that a completed call passed to \<open>get_tile\<close>
  lies in \<open>[0, map_width) \<times> [0, map_height)\<close>.
\<close>

theorem render_reads_within_map:
  assumes "get_main_camera w = Some cam"
    and "0 \<le> get_current_x cam" and "0 \<le> get_current_y cam"
    and "get_map_width (world_map w) < 4294967296" and "get_map_height (world_map w) < 4294967296"
  shows "(\<forall>maxima. clamped_max_tiles cam (world_map w) = Inr maxima \<longrightarrow>
            fst maxima \<le> get_map_width (world_map w) \<and>
            snd maxima \<le> get_map_height (world_map w) \<and>
            (\<forall>tx \<in> set (float_range (get_current_x cam) (fst maxima)).
               \<exists>i < get_map_width (world_map w). float_to_unsigned tx = Inr i) \<and>
            (\<forall>ty \<in> set (float_range (get_current_y cam) (snd maxima)).
               \<exists>j < get_map_height (world_map w). float_to_unsigned ty = Inr j)) \<and>
         (\<forall>E r. render E w = Inr r \<longrightarrow>
            (\<forall>k \<in> set (tile_reads (snd r)).
               fst k < get_map_width (world_map w) \<and> snd k < get_map_height (world_map w)))"
proof (intro conjI allI impI)
  fix maxima
  assume m: "clamped_max_tiles cam (world_map w) = Inr maxima"
  show "fst maxima \<le> get_map_width (world_map w)" "snd maxima \<le> get_map_height (world_map w)"
    by (rule clamped_max_tiles_le [OF m])+
  show "\<forall>tx \<in> set (float_range (get_current_x cam) (fst maxima)).
               \<exists>i < get_map_width (world_map w). float_to_unsigned tx = Inr i"
    using float_range_converts [OF _ assms(2) clamped_max_tiles_le(1) [OF m] assms(4)] by blast
  show "\<forall>ty \<in> set (float_range (get_current_y cam) (snd maxima)).
               \<exists>j < get_map_height (world_map w). float_to_unsigned ty = Inr j"
    using float_range_converts [OF _ assms(3) clamped_max_tiles_le(2) [OF m] assms(5)] by blast
next
  fix E r
  assume "render E w = Inr r"
  then show "\<forall>k \<in> set (tile_reads (snd r)).
               fst k < get_map_width (world_map w) \<and> snd k < get_map_height (world_map w)"
  proof (cases rule: render_cases)
    case no_camera
    then show ?thesis by simp
  next
    case (camera cam' maxima s)
    then have cam': "cam' = cam" using assms(1) by simp
    have "\<forall>k \<in> set (tile_reads s). fst k < fst maxima \<and> snd k < snd maxima"
      by (rule render_tiles_reads_less [OF camera(3)]) (simp_all add: cam' assms)
    then show ?thesis
      using clamped_max_tiles_le [OF camera(2)] camera(4) by fastforce
  qed
qed


lemma example_renders: "render cursor_nowhere example_world = Inr (projr (render cursor_nowhere example_world))"
proof -
  have "\<not> isl (render cursor_nowhere example_world)" by code_simp
  then show ?thesis by simp
qed

text \<open>The scenario of 4 by 4 tiles reads its 16 tiles row by row, the last at (3, 3).\<close>

theorem render_reads_within_map_witness:
  "tile_reads (snd (projr (render cursor_nowhere example_world))) =
     [(0, 0), (1, 0), (2, 0), (3, 0), (0, 1), (1, 1), (2, 1), (3, 1),
      (0, 2), (1, 2), (2, 2), (3, 2), (0, 3), (1, 3), (2, 3), (3, 3)] \<and>
   fst (3 :: nat, 3 :: nat) < get_map_width (world_map example_world) \<and>
   snd (3 :: nat, 3 :: nat) < get_map_height (world_map example_world)"
proof -
  have cam: "get_main_camera example_world = Some example_camera"
    by (simp add: get_main_camera_def example_world_def example_camera_def)
  have x: "0 \<le> get_current_x example_camera" and y: "0 \<le> get_current_y example_camera"
    by (simp_all add: example_camera_def)
  have w: "get_map_width (world_map example_world) < 4294967296"
    and h: "get_map_height (world_map example_world) < 4294967296"
    by (simp_all add: example_world_def example_map_def)
  have reads: "tile_reads (snd (projr (render cursor_nowhere example_world))) =
     [(0, 0), (1, 0), (2, 0), (3, 0), (0, 1), (1, 1), (2, 1), (3, 1),
      (0, 2), (1, 2), (2, 2), (3, 2), (0, 3), (1, 3), (2, 3), (3, 3)]"
    by code_simp
  have "\<forall>k \<in> set (tile_reads (snd (projr (render cursor_nowhere example_world)))).
      fst k < get_map_width (world_map example_world) \<and>
      snd k < get_map_height (world_map example_world)"
    using render_reads_within_map [OF cam x y w h] example_renders by blast
  then show ?thesis unfolding reads by simp
qed

text \<open>
  C1 as stated fails for a negative scroll position: with the camera at column \<open>-1\<close>
  the columns iterated are \<open>-1, 0, 1, 2, 3\<close>, the first is no index of the map, and its
  conversion to \<open>unsigned\<close> is undefined.
\<close>

theorem render_negative_scroll_counterexample:
  "clamped_max_tiles left_camera (world_map left_world) = Inr (4, 4) \<and>
   float_range (get_current_x left_camera) 4 = [- 1, 0, 1, 2, 3] \<and>
   float_to_unsigned (- 1) = Inl UndefinedConversion \<and>
   render cursor_nowhere left_world = Inl UndefinedConversion"
proof -
  have "clamped_max_tiles left_camera (world_map left_world) = Inr (4, 4)"
    and "float_range (get_current_x left_camera) 4 = [- 1, 0, 1, 2, 3]"
    and "float_to_unsigned (- 1) = Inl UndefinedConversion"
    and "error_of (render cursor_nowhere left_world) = Some UndefinedConversion"
    by code_simp+
  then show ?thesis by (simp add: error_of_Some)
qed

text \<open>
  C9, as the code has it: a call that finds an enabled camera returns with
  \<open>update_called\<close> false; a call that finds none returns at once and leaves the world,
  and so the flag, as it was.
\<close>

theorem render_clears_update_called:
  assumes "render E w = Inr r"
  shows "(get_main_camera w \<noteq> None \<longrightarrow> \<not> update_called (fst r)) \<and>
     (get_main_camera w = None \<longrightarrow> fst r = w)"
  using assms by (cases rule: render_cases) simp_all

text \<open>In the scenario the flag is set before the call and cleared after it.\<close>

theorem render_clears_update_called_witness:
  "get_main_camera example_world \<noteq> None \<and>
   \<not> update_called (fst (projr (render cursor_nowhere example_world))) \<and>
   update_called example_world"
proof -
  have "get_main_camera example_world \<noteq> None"
    by (simp add: get_main_camera_def example_world_def example_camera_def)
  moreover have "update_called example_world" by (simp add: example_world_def)
  ultimately show ?thesis
    using render_clears_update_called [OF example_renders] by simp
qed

text \<open>
  C9 as stated fails without an enabled camera: the flag is still set when the call
  returns.
\<close>

theorem render_without_camera_counterexample:
  "get_main_camera no_camera_world = None \<and>
   update_called_after (render cursor_nowhere no_camera_world) = Inr True"
  by code_simp

lemma render_selection:
  assumes "render E w = Inr r"
  shows "selected_world_tile (fst r) =
     selection_of (selected_world_tile w) (hit_tiles E (world_map w) (tile_reads (snd r)))"
  using assms
proof (cases rule: render_cases)
  case no_camera
  then show ?thesis by (simp add: hit_tiles_def selection_of_def)
next
  case (camera cam maxima s)
  from render_tiles_selection [OF camera(3)] camera(4) show ?thesis by simp
qed

text \<open>
  C4, as the code has it: the hit test is made for the pairs of tile and layer that
  have something to draw (an image of the tile, or default images of the layer); the
  other pairs are skipped by \<open>continue\<close> before the hit test. So the selection after a
  call is the last tile read that lies under the cursor and has something to draw on
  some layer, and the old selection when there is none.
\<close>

theorem render_selects_last_drawable_hit:
  assumes "render E w = Inr r"
  shows "selected_world_tile (fst r) =
     selection_of (selected_world_tile w) (hit_tiles E (world_map w) (tile_reads (snd r)))"
  using assms by (rule render_selection)

lemma cursor_2_2_renders:
  "render (cursor_on (2, 2)) example_world = Inr (projr (render (cursor_on (2, 2)) example_world))"
proof -
  have "\<not> isl (render (cursor_on (2, 2)) example_world)" by code_simp
  then show ?thesis by simp
qed

text \<open>With the cursor on the tile (2, 2), which has an image, that tile is selected.\<close>

theorem render_selects_last_drawable_hit_witness:
  "hit_tiles (cursor_on (2, 2)) (world_map example_world)
     (tile_reads (snd (projr (render (cursor_on (2, 2)) example_world)))) = [(2, 2)] \<and>
   selected_world_tile (fst (projr (render (cursor_on (2, 2)) example_world))) = (2, 2)"
proof -
  have hits: "hit_tiles (cursor_on (2, 2)) (world_map example_world)
     (tile_reads (snd (projr (render (cursor_on (2, 2)) example_world)))) = [(2, 2)]"
    by code_simp
  show ?thesis
    using render_selects_last_drawable_hit [OF cursor_2_2_renders]
    by (simp add: hits selection_of_def tile_point_of_def)
qed

text \<open>
  C4 as stated fails: in the scenario, with the cursor on the empty tile (0, 0), the
  tile is iterated and its hit test would succeed, but the selection stays the sentinel
  pair; the one draw call is that of the tile (2, 2).
\<close>

theorem render_empty_tile_not_selected_counterexample:
  "hittest (cursor_on (0, 0)) (0, 0) \<and>
   tile_reads_of (render (cursor_on (0, 0)) example_world) =
     Inr [(0, 0), (1, 0), (2, 0), (3, 0), (0, 1), (1, 1), (2, 1), (3, 1),
          (0, 2), (1, 2), (2, 2), (3, 2), (0, 3), (1, 3), (2, 3), (3, 3)] \<and>
   selection_after (render (cursor_on (0, 0)) example_world) = Inr (INT_MAX, INT_MAX) \<and>
   draw_calls_of (render (cursor_on (0, 0)) example_world) = Inr [DrawTile (2, 2) 0 1]"
  by code_simp

text \<open>
  C10: when no tile read by a call lies under the cursor, the selection after the call
  is the selection before it; and a selection that the call changes is a tile point
  none of whose coordinates is the sentinel value, for a map smaller than the sentinel.
\<close>

theorem render_keeps_selection_without_hit:
  assumes "render E w = Inr r"
    and "int (get_map_width (world_map w)) < INT_MAX"
    and "int (get_map_height (world_map w)) < INT_MAX"
  shows "((\<forall>k \<in> set (tile_reads (snd r)). \<not> hittest E (tile_point_of k)) \<longrightarrow>
            selected_world_tile (fst r) = selected_world_tile w) \<and>
     (selected_world_tile (fst r) = selected_world_tile w \<or>
      (fst (selected_world_tile (fst r)) \<noteq> INT_MAX \<and>
       snd (selected_world_tile (fst r)) \<noteq> INT_MAX))"
proof -
  let ?hits = "hit_tiles E (world_map w) (tile_reads (snd r))"
  have sel: "selected_world_tile (fst r) = selection_of (selected_world_tile w) ?hits"
    by (rule render_selection [OF assms(1)])
  have bound: "\<forall>k \<in> set (tile_reads (snd r)).
      fst k \<le> get_map_width (world_map w) \<and> snd k \<le> get_map_height (world_map w)"
    using assms(1)
  proof (cases rule: render_cases)
    case no_camera
    then show ?thesis by simp
  next
    case (camera cam maxima s)
    have "\<forall>k \<in> set (tile_reads s). fst k \<le> fst maxima \<and> snd k \<le> snd maxima"
      by (rule render_tiles_reads_le [OF camera(3)]) simp
    then show ?thesis
      using clamped_max_tiles_le [OF camera(2)] camera(4) by fastforce
  qed
  have first: "(\<forall>k \<in> set (tile_reads (snd r)). \<not> hittest E (tile_point_of k)) \<longrightarrow>
      selected_world_tile (fst r) = selected_world_tile w"
  proof
    assume "\<forall>k \<in> set (tile_reads (snd r)). \<not> hittest E (tile_point_of k)"
    then have "?hits = []" by (simp add: hit_tiles_def)
    then show "selected_world_tile (fst r) = selected_world_tile w"
      by (simp add: sel selection_of_def)
  qed
  have second: "selected_world_tile (fst r) = selected_world_tile w \<or>
      (fst (selected_world_tile (fst r)) \<noteq> INT_MAX \<and>
       snd (selected_world_tile (fst r)) \<noteq> INT_MAX)"
  proof (cases "?hits = []")
    case True
    then show ?thesis by (simp add: sel selection_of_def)
  next
    case False
    then have "last ?hits \<in> set ?hits" by simp
    then have "last ?hits \<in> set (tile_reads (snd r))" by (simp add: hit_tiles_def)
    with bound have "fst (last ?hits) \<le> get_map_width (world_map w)"
      and "snd (last ?hits) \<le> get_map_height (world_map w)"
      by simp_all
    then have "int (fst (last ?hits)) < INT_MAX" and "int (snd (last ?hits)) < INT_MAX"
      using assms(2,3) by simp_all
    then show ?thesis using False by (simp add: sel selection_of_def tile_point_of_def)
  qed
  from first second show ?thesis by simp
qed

text \<open>
  In the scenario, a call without hit keeps the sentinel pair, and a call with the
  cursor on (2, 2) stores a point that is not the sentinel.
\<close>

theorem render_keeps_selection_without_hit_witness:
  "selected_world_tile (fst (projr (render cursor_nowhere example_world))) =
     selected_world_tile example_world \<and>
   fst (selected_world_tile (fst (projr (render (cursor_on (2, 2)) example_world)))) \<noteq> INT_MAX"
proof -
  have w: "int (get_map_width (world_map example_world)) < INT_MAX"
    and h: "int (get_map_height (world_map example_world)) < INT_MAX"
    by (simp_all add: example_world_def example_map_def INT_MAX_def)
  have none: "\<forall>k \<in> set (tile_reads (snd (projr (render cursor_nowhere example_world)))).
      \<not> hittest cursor_nowhere (tile_point_of k)"
    by (simp add: cursor_nowhere_def)
  have changed: "selected_world_tile (fst (projr (render (cursor_on (2, 2)) example_world))) \<noteq>
      selected_world_tile example_world"
    by code_simp
  show ?thesis
    using render_keeps_selection_without_hit [OF example_renders w h] none
      render_keeps_selection_without_hit [OF cursor_2_2_renders w h] changed
    by simp
qed



subsection \<open>The draw calls of a default image\<close>

lemma draw_tile_draws:
  "draw_calls (draw_tile ct p l img s) =
     draw_calls s @
       (case img of None \<Rightarrow> []
        | Some i \<Rightarrow> (case ct of None \<Rightarrow> []
            | Some k \<Rightarrow> if has_image (rs_map s) k l then [DrawTile p l (image_id i)] else []))"
  by (simp add: draw_tile_def split: option.splits)

lemma select_tile_draws [simp]:
  "draw_calls (fst (select_tile E p sb)) = draw_calls (fst sb)"
  by (simp add: select_tile_def)

lemma draw_selection_draws:
  "set (draw_calls (fst sb)) \<subseteq> set (draw_calls (fst (draw_selection p l sb)))"
  by (auto simp: draw_selection_def)

lemma resolve_image_writes_chosen:
  assumes "resolve_image E (Some k) l s = Inr (Some (Some img, s'))"
    and "tiles (rs_map s) k \<noteq> None" and "get_image_id (rs_map s) k l = None"
  shows "get_image_id (rs_map s') k l = Some (image_id img)"
  using assms
  by (auto simp: resolve_image_def get_image_id_set_image_id split: option.splits if_splits)

lemma render_layer_draws_grow:
  assumes "render_layer E ct p l sb = Inr sb'"
  shows "set (draw_calls (fst sb)) \<subseteq> set (draw_calls (fst sb'))"
  using assms
proof (cases rule: render_layer_cases)
  case skip
  then show ?thesis by simp
next
  case (drawn img s1)
  have "draw_calls s1 = draw_calls (fst sb)"
    using drawn(1) by (elim resolve_image_cases) auto
  then have "set (draw_calls (fst sb)) \<subseteq>
      set (draw_calls (fst (select_tile E p (draw_tile ct p l img s1, snd sb))))"
    by (auto simp: draw_tile_draws)
  with draw_selection_draws [of "select_tile E p (draw_tile ct p l img s1, snd sb)" p l]
  show ?thesis unfolding drawn(2) by blast
qed

lemma render_layer_draws_new:
  assumes "render_layer E ct p l sb = Inr sb'"
    and "get_image_id (rs_map (fst sb)) k' l' = None"
    and "get_image_id (rs_map (fst sb')) k' l' = Some i"
  shows "DrawTile p l' i \<in> set (draw_calls (fst sb'))"
  using assms(1)
proof (cases rule: render_layer_cases)
  case skip
  then show ?thesis using assms(2,3) by simp
next
  case (drawn img s1)
  from drawn(1) have "DrawTile p l' i \<in> set (draw_calls (draw_tile ct p l img s1))"
  proof (cases rule: resolve_image_cases)
    case (explicit k j)
    then show ?thesis using assms(2,3) drawn(2) by simp
  next
    case (default k im)
    have m': "rs_map (fst sb') = set_image_id (rs_map (fst sb)) k l (image_id im)"
      using default(5) drawn(2) by simp
    from assms(2,3) have "k' = k" "l' = l" "tiles (rs_map (fst sb)) k \<noteq> None" "i = image_id im"
      by (auto simp: m' get_image_id_set_image_id split: if_splits)
    then show ?thesis
      using default(1,5)
      by (simp add: draw_tile_draws has_image_def get_image_id_set_image_id)
  next
    case skip
    then show ?thesis by simp
  qed
  then have "DrawTile p l' i \<in>
      set (draw_calls (fst (select_tile E p (draw_tile ct p l img s1, snd sb))))"
    by simp
  with draw_selection_draws [of "select_tile E p (draw_tile ct p l img s1, snd sb)" p l]
  show ?thesis unfolding drawn(2) by blast
qed

lemma render_layers_draws_grow:
  assumes "for_each (render_layer E ct p) ls sb = Inr sb'"
  shows "set (draw_calls (fst sb)) \<subseteq> set (draw_calls (fst sb'))"
  by (rule for_each_invariant [OF assms, where I = "\<lambda>t.
        set (draw_calls (fst sb)) \<subseteq> set (draw_calls (fst t))"])
     (use render_layer_draws_grow in blast)+

lemma render_layers_draws_new:
  assumes "for_each (render_layer E ct p) ls sb = Inr sb'"
    and "get_image_id (rs_map (fst sb)) k' l' = None"
    and "get_image_id (rs_map (fst sb')) k' l' = Some i"
  shows "DrawTile p l' i \<in> set (draw_calls (fst sb'))"
  using assms
proof (induction ls arbitrary: sb)
  case Nil
  then show ?case by simp
next
  case (Cons v ls)
  from Cons.prems(1) obtain t where t: "render_layer E ct p v sb = Inr t"
    and rest: "for_each (render_layer E ct p) ls t = Inr sb'"
    by (auto split: sum.splits)
  show ?case
  proof (cases "get_image_id (rs_map (fst t)) k' l'")
    case None
    from Cons.IH [OF rest None Cons.prems(3)] show ?thesis .
  next
    case (Some i')
    from render_layers_keeps_image_id [OF rest Some] Cons.prems(3) have "i' = i" by simp
    with render_layer_draws_new [OF t Cons.prems(2)] Some
    have "DrawTile p l' i \<in> set (draw_calls (fst t))" by simp
    with render_layers_draws_grow [OF rest] show ?thesis by blast
  qed
qed

lemma render_tile_draws_grow:
  assumes "render_tile E ty tx s = Inr s'"
  shows "set (draw_calls s) \<subseteq> set (draw_calls s')"
proof -
  from assms(1) obtain ux uy sb where c:
    "for_each (render_layer E (get_tile (rs_map s) ux uy) (tile_point_of (ux, uy)))
       [0..<length (get_layers (rs_map s))]
       (s\<lparr>tile_reads := tile_reads s @ [(ux, uy)]\<rparr>, False) = Inr sb"
    "s' = fst sb"
    by (rule render_tile_cases)
  from render_layers_draws_grow [OF c(1)] c(2) show ?thesis by simp
qed

lemma render_tile_draws_new:
  assumes "render_tile E ty tx s = Inr s'"
    and "get_image_id (rs_map s) k l = None" and "get_image_id (rs_map s') k l = Some i"
  shows "DrawTile (tile_point_of k) l i \<in> set (draw_calls s')"
proof -
  from assms(1) obtain ux uy sb where c:
    "for_each (render_layer E (get_tile (rs_map s) ux uy) (tile_point_of (ux, uy)))
       [0..<length (get_layers (rs_map s))]
       (s\<lparr>tile_reads := tile_reads s @ [(ux, uy)]\<rparr>, False) = Inr sb"
    "s' = fst sb"
    by (rule render_tile_cases)
  from render_layers_new_image_id [OF c(1), of k l i] assms(2,3) c(2)
  have "get_tile (rs_map s) ux uy = Some k" by simp
  then have k: "k = (ux, uy)" by (simp add: get_tile_def split: option.splits)
  from render_layers_draws_new [OF c(1), of k l i] assms(2,3) c(2) show ?thesis
    by (simp add: k)
qed

lemma render_tiles_draws_new:
  assumes "render_tiles E cam maxima s = Inr s'"
    and "get_image_id (rs_map s) k l = None" and "get_image_id (rs_map s') k l = Some i"
  shows "DrawTile (tile_point_of k) l i \<in> set (draw_calls s')"
proof -
  let ?I = "\<lambda>t. \<forall>j. get_image_id (rs_map t) k l = Some j \<longrightarrow>
       DrawTile (tile_point_of k) l j \<in> set (draw_calls t)"
  have "?I s'"
  proof (rule render_tiles_invariant [OF assms(1), where I = ?I])
    show "?I s" by (simp add: assms(2))
  next
    fix tx ty t t'
    assume inv: "?I t" and step: "render_tile E ty tx t = Inr t'"
    show "?I t'"
    proof (intro allI impI)
      fix j
      assume j: "get_image_id (rs_map t') k l = Some j"
      show "DrawTile (tile_point_of k) l j \<in> set (draw_calls t')"
      proof (cases "get_image_id (rs_map t) k l")
        case None
        from render_tile_draws_new [OF step None j] show ?thesis .
      next
        case (Some j0)
        from render_tile_keeps_image_id [OF step Some] j have "j0 = j" by simp
        with inv Some have "DrawTile (tile_point_of k) l j \<in> set (draw_calls t)" by simp
        with render_tile_draws_grow [OF step] show ?thesis by blast
      qed
    qed
  qed
  then show ?thesis using assms(3) by simp
qed

lemma render_objects_draws [simp]:
  "draw_calls (render_objects objs s) = draw_calls s @ map ObjectRender objs"
  by (simp add: render_objects_def)

lemma render_keeps_image_id:
  assumes "render E w = Inr r" and "get_image_id (world_map w) k l = Some i"
  shows "get_image_id (world_map (fst r)) k l = Some i"
  using assms(1)
proof (cases rule: render_cases)
  case no_camera
  then show ?thesis using assms(2) by simp
next
  case (camera cam maxima s)
  from render_tiles_keeps_image_id [OF camera(3), of k l i] assms(2) camera(4)
  show ?thesis by simp
qed

text \<open>
  C2: after a call, every tile it read has an image id on every layer with default
  images; where the tile had none before, the id is that of a registered image of the
  pool and the call issued the draw call of that image for the tile and the layer; the
  id that a resolution of a default image writes onto the tile is the id of the image
  it returns; and every later call on that map, with any random source, resolves the
  same image without drawing a random number and leaves the id on the tile.
\<close>

theorem default_image_is_kept:
  assumes "render E w = Inr r" and "k \<in> set (tile_reads (snd r))"
    and "l < length (get_layers (world_map w))"
    and "layer_has_default_images (world_map w) l"
  shows "\<exists>i. get_image_id (world_map (fst r)) k l = Some i \<and>
     (get_image_id (world_map w) k l = None \<longrightarrow>
        (\<exists>j \<in> set (default_images (get_layers (world_map w) ! l)).
           \<exists>img. get_image (world_map w) j = Some img \<and> i = image_id img) \<and>
        DrawTile (tile_point_of k) l i \<in> set (draw_calls (snd r))) \<and>
     (\<forall>E' t img t'. tiles (rs_map t) k \<noteq> None \<longrightarrow> get_image_id (rs_map t) k l = None \<longrightarrow>
        resolve_image E' (Some k) l t = Inr (Some (Some img, t')) \<longrightarrow>
        get_image_id (rs_map t') k l = Some (image_id img)) \<and>
     (\<forall>E' s. rs_map s = world_map (fst r) \<longrightarrow>
        resolve_image E' (Some k) l s = Inr (Some (get_image (world_map (fst r)) i, s))) \<and>
     (\<forall>E' w' r'. world_map w' = world_map (fst r) \<longrightarrow> render E' w' = Inr r' \<longrightarrow>
        get_image_id (world_map (fst r')) k l = Some i)"
  using assms(1)
proof (cases rule: render_cases)
  case no_camera
  then show ?thesis using assms(2) by simp
next
  case (camera cam maxima s)
  have m: "world_map (fst r) = rs_map s" and reads: "tile_reads (snd r) = tile_reads s"
    using camera(4) by simp_all
  have "get_image_id (rs_map s) k l \<noteq> None"
    by (rule render_tiles_assigns [OF camera(3)]) (use assms(2-4) reads in simp_all)
  then obtain i where i: "get_image_id (rs_map s) k l = Some i" by auto
  have fresh: "\<exists>j \<in> set (default_images (get_layers (world_map w) ! l)).
           \<exists>img. get_image (world_map w) j = Some img \<and> i = image_id img"
    if "get_image_id (world_map w) k l = None"
    using render_tiles_new_image_id [OF camera(3), of k l i] that i by simp
  have drawn: "DrawTile (tile_point_of k) l i \<in> set (draw_calls (snd r))"
    if "get_image_id (world_map w) k l = None"
    using render_tiles_draws_new [OF camera(3), of k l i] that i camera(4) by simp
  have chosen: "get_image_id (rs_map t') k l = Some (image_id img)"
    if "tiles (rs_map t) k \<noteq> None" and "get_image_id (rs_map t) k l = None"
      and "resolve_image E' (Some k) l t = Inr (Some (Some img, t'))" for E' t img t'
    by (rule resolve_image_writes_chosen [OF that(3,1,2)])
  have kept: "get_image_id (world_map (fst r')) k l = Some i"
    if "world_map w' = world_map (fst r)" and "render E' w' = Inr r'" for E' w' r'
    by (rule render_keeps_image_id [OF that(2)]) (simp add: that(1) m i)
  have resolved: "resolve_image E' (Some k) l t = Inr (Some (get_image (world_map (fst r)) i, t))"
    if "rs_map t = world_map (fst r)" for E' t
    using that i by (simp add: resolve_image_def m)
  show ?thesis
  proof (intro exI [of _ i] conjI allI impI)
    show "get_image_id (world_map (fst r)) k l = Some i" by (simp add: m i)
  qed (use fresh drawn chosen kept resolved in blast)+
qed

lemma default_renders:
  "render cursor_nowhere default_world = Inr (projr (render cursor_nowhere default_world))"
proof -
  have "\<not> isl (render cursor_nowhere default_world)" by code_simp
  then show ?thesis by simp
qed

lemma default_renders_again:
  "render other_random (fst (projr (render cursor_nowhere default_world))) =
     Inr (projr (render other_random (fst (projr (render cursor_nowhere default_world)))))"
proof -
  have "\<not> isl (render other_random (fst (projr (render cursor_nowhere default_world))))"
    by code_simp
  then show ?thesis by simp
qed

text \<open>
  The tile (1, 0) gets the default image 2 in the first call, which draws it, and keeps
  it in a second call with another random source.
\<close>

theorem default_image_is_kept_witness:
  "get_image_id (world_map default_world) (1, 0) 0 = None \<and>
   get_image_id (world_map (fst (projr (render cursor_nowhere default_world)))) (1, 0) 0 = Some 2 \<and>
   DrawTile (1, 0) 0 2 \<in> set (draw_calls (snd (projr (render cursor_nowhere default_world)))) \<and>
   get_image_id (world_map (fst (projr (render other_random
       (fst (projr (render cursor_nowhere default_world))))))) (1, 0) 0 = Some 2"
proof -
  have before: "get_image_id (world_map default_world) (1, 0) 0 = None"
    by code_simp
  have after: "get_image_id (world_map (fst (projr (render cursor_nowhere default_world)))) (1, 0) 0
      = Some 2"
    by code_simp
  have k: "(1, 0) \<in> set (tile_reads (snd (projr (render cursor_nowhere default_world))))"
    by code_simp
  have l: "0 < length (get_layers (world_map default_world))"
    by (simp add: default_world_def default_map_def example_world_def)
  have d: "layer_has_default_images (world_map default_world) 0"
    by (simp add: layer_has_default_images_def default_world_def default_map_def example_world_def)
  from default_image_is_kept [OF default_renders k l d] after before
  have drawn: "DrawTile (tile_point_of (1, 0)) 0 2
      \<in> set (draw_calls (snd (projr (render cursor_nowhere default_world))))"
    and kept: "\<forall>E' w' r'.
      world_map w' = world_map (fst (projr (render cursor_nowhere default_world))) \<longrightarrow>
      render E' w' = Inr r' \<longrightarrow> get_image_id (world_map (fst r')) (1, 0) 0 = Some 2"
    by auto
  have "DrawTile (1, 0) 0 2
      \<in> set (draw_calls (snd (projr (render cursor_nowhere default_world))))"
    using drawn by (simp add: tile_point_of_def)
  moreover have "get_image_id (world_map (fst (projr (render other_random
       (fst (projr (render cursor_nowhere default_world))))))) (1, 0) 0 = Some 2"
    using kept default_renders_again by blast
  ultimately show ?thesis using before after by blast
qed

text \<open>
  C8 fails on the code: at a position without tile under a layer with default images,
  line 124 dereferences the null tile pointer; and when the default image is not
  registered, line 124 dereferences the null image pointer.
\<close>

theorem render_dereferences_null:
  "get_tile (world_map missing_tile_world) 1 0 = None \<and>
   layer_has_default_images (world_map missing_tile_world) 0 \<and>
   render cursor_nowhere missing_tile_world = Inl NullTileDereference \<and>
   get_image (world_map unregistered_default_world)
     (get_random_layer_default_image (world_map unregistered_default_world) 0 0) = None \<and>
   render cursor_nowhere unregistered_default_world = Inl NullImageDereference"
proof -
  have "get_tile (world_map missing_tile_world) 1 0 = None"
    and "layer_has_default_images (world_map missing_tile_world) 0"
    and "error_of (render cursor_nowhere missing_tile_world) = Some NullTileDereference"
    and "get_image (world_map unregistered_default_world)
     (get_random_layer_default_image (world_map unregistered_default_world) 0 0) = None"
    and "error_of (render cursor_nowhere unregistered_default_world) = Some NullImageDereference"
    by code_simp+
  then show ?thesis by (simp add: error_of_Some)
qed

section \<open>Properties of the glyph atlas\<close>

lemmas pack_defs = pack_glyph_def before_place_def grow_row_def wrap_row_def next_texture_def
  advance_def set_srcrect_def max_texture_width_def max_texture_height_def

lemma cursor_ok_step:
  assumes "cursor_ok s" and "0 < surface_w g" and "0 < surface_h g"
  shows "cursor_ok (snd (pack_glyph g s))"
  using assms by (auto simp: cursor_ok_def pack_defs)

lemma positive_step:
  assumes "cursor_ok s" and "0 < surface_w g" and "0 < surface_h g"
  shows "0 < pk_texture_width (snd (pack_glyph g s))"
    and "0 < pk_texture_height (snd (pack_glyph g s))"
  using assms by (auto simp: cursor_ok_def pack_defs)

lemma placed_ok_new:
  assumes "cursor_ok s" and "0 < surface_w g" and "0 < surface_h g"
  shows "placed_ok (snd (pack_glyph g s)) (fst (pack_glyph g s))"
  using assms by (auto simp: cursor_ok_def placed_ok_def pack_defs)

lemma placed_ok_old:
  assumes "cursor_ok s" and "0 < surface_w g" and "0 < surface_h g" and "placed_ok s g0"
  shows "placed_ok (snd (pack_glyph g s)) g0"
  using assms
  by (auto simp: cursor_ok_def placed_ok_def pack_defs rect_inside_def nth_append)

lemma apart_new:
  assumes "cursor_ok s" and "0 < surface_w g" and "0 < surface_h g" and "placed_ok s (snd cg0)"
  shows "apart cg0 (c, fst (pack_glyph g s))"
  using assms
  by (auto simp: cursor_ok_def placed_ok_def apart_def rects_overlap_def pack_defs split: if_splits)


lemma pack_invar_step:
  assumes "pack_invar (placed, s)" and "0 < surface_w g" and "0 < surface_h g"
  shows "pack_invar (placed @ [(c, fst (pack_glyph g s))], snd (pack_glyph g s))"
proof -
  from assms(1) have cur: "cursor_ok s" and old: "\<forall>cg \<in> set placed. placed_ok s (snd cg)"
    and srt: "sorted_wrt apart placed"
    by (simp_all add: pack_invar_def)
  have "cursor_ok (snd (pack_glyph g s))"
    by (rule cursor_ok_step [OF cur assms(2,3)])
  moreover have "0 < pk_texture_width (snd (pack_glyph g s))"
    and "0 < pk_texture_height (snd (pack_glyph g s))"
    by (rule positive_step [OF cur assms(2,3)])+
  moreover have "\<forall>cg \<in> set (placed @ [(c, fst (pack_glyph g s))]).
      placed_ok (snd (pack_glyph g s)) (snd cg)"
    using old placed_ok_old [OF cur assms(2,3)] placed_ok_new [OF cur assms(2,3)] by auto
  moreover have "sorted_wrt apart (placed @ [(c, fst (pack_glyph g s))])"
    using srt old apart_new [OF cur assms(2,3)] by (simp add: sorted_wrt_append)
  ultimately show ?thesis by (simp add: pack_invar_def)
qed

lemma pack_glyphs_invar:
  assumes "pack_invar acc"
    and "\<forall>cg \<in> set gs. 0 < surface_w (snd cg) \<and> 0 < surface_h (snd cg)"
  shows "pack_invar (pack_glyphs gs acc)"
  using assms
proof (induction gs arbitrary: acc)
  case Nil
  then show ?case by simp
next
  case (Cons cg gs)
  have "pack_invar (fst acc @ [(fst cg, fst (pack_glyph (snd cg) (snd acc)))],
                    snd (pack_glyph (snd cg) (snd acc)))"
    by (rule pack_invar_step) (use Cons.prems in simp_all)
  then show ?case using Cons.IH Cons.prems(2) by simp
qed

lemma pack_invar_start: "pack_invar ([], pack_start)"
  by (simp add: pack_invar_def cursor_ok_def pack_start_def)

lemma pack_glyph_surface [simp]:
  "surface_w (fst (pack_glyph g s)) = surface_w g"
  "surface_h (fst (pack_glyph g s)) = surface_h g"
  by (simp_all add: pack_glyph_def set_srcrect_def)

lemma pack_glyphs_surfaces:
  "map surface_of (fst (pack_glyphs gs acc)) = map surface_of (fst acc) @ map surface_of gs"
  by (induction gs arbitrary: acc) (simp_all add: surface_of_def)

lemma pack_glyphs_nonempty: "gs \<noteq> [] \<Longrightarrow> fst (pack_glyphs gs acc) \<noteq> []"
  using pack_glyphs_surfaces [of gs acc] by (metis Nil_is_append_conv Nil_is_map_conv)

lemma reach_ok_step:
  assumes "reach_ok s" and "0 < surface_w g" and "0 < surface_h g"
    and "surface_w g \<le> largest_surface" and "surface_h g \<le> largest_surface"
  shows "reach_ok (snd (pack_glyph g s))" and "sums_fit g s"
  using assms
  by (auto simp: reach_ok_def sums_fit_def int_range_def largest_surface_def pack_defs)

lemma pack_glyphs_fits:
  assumes "reach_ok s"
    and "\<forall>cg \<in> set gs. 0 < surface_w (snd cg) \<and> 0 < surface_h (snd cg) \<and>
           surface_w (snd cg) \<le> largest_surface \<and> surface_h (snd cg) \<le> largest_surface"
  shows "pack_fits gs s"
  using assms
proof (induction gs arbitrary: s)
  case Nil
  then show ?case by simp
next
  case (Cons cg gs)
  have "reach_ok (snd (pack_glyph (snd cg) s))" and "sums_fit (snd cg) s"
    by (rule reach_ok_step; use Cons.prems in simp)+
  then show ?case using Cons.IH Cons.prems(2) by simp
qed

lemma reach_ok_start: "reach_ok pack_start"
  by (simp add: reach_ok_def pack_start_def largest_surface_def max_texture_height_def)

text \<open>
  Beyond that size a sum can leave the range: after a glyph as wide as the largest
  \<open>int\<close>, the sum of line 133 for the next glyph does not fit.
\<close>

lemma pack_overflows_beyond_largest_surface:
  "\<not> pack_fits [(CHR ''a'', glyph 2147483647 10), (CHR ''b'', glyph 1 10)] pack_start"
  by code_simp

text \<open>
  C6: for glyphs whose surfaces have a positive width and height of at most
  \<open>largest_surface\<close>, packed into a font that has no textures yet, no sum of the routine
  leaves the range of \<open>int\<close>, and the routine keeps every glyph of the input, gives
  each the index of a texture that it produced and a source rectangle of the size of its
  surface inside the recorded rectangle of that texture, and no two glyphs of one
  texture overlap.
\<close>

theorem glyphs_packed_inside_pages_without_overlap:
  assumes "textures font_info = []"
    and "\<forall>cg \<in> set (glyphs font_info). 0 < surface_w (snd cg) \<and> 0 < surface_h (snd cg)"
    and "\<forall>cg \<in> set (glyphs font_info).
           surface_w (snd cg) \<le> largest_surface \<and> surface_h (snd cg) \<le> largest_surface"
  shows "pack_fits (glyphs font_info) pack_start \<and>
     map surface_of (glyphs (generate_glyph_srcrects font_info)) =
       map surface_of (glyphs font_info) \<and>
     (\<forall>cg \<in> set (glyphs (generate_glyph_srcrects font_info)).
        texture_index (snd cg) < length (textures (generate_glyph_srcrects font_info)) \<and>
        rect_inside (srcrect (snd cg))
          (textures (generate_glyph_srcrects font_info) ! texture_index (snd cg)) \<and>
        rect_w (srcrect (snd cg)) = surface_w (snd cg) \<and>
        rect_h (srcrect (snd cg)) = surface_h (snd cg)) \<and>
     (\<forall>i j. i < j \<and> j < length (glyphs (generate_glyph_srcrects font_info)) \<and>
        texture_index (snd (glyphs (generate_glyph_srcrects font_info) ! i)) =
          texture_index (snd (glyphs (generate_glyph_srcrects font_info) ! j)) \<longrightarrow>
        \<not> rects_overlap (srcrect (snd (glyphs (generate_glyph_srcrects font_info) ! i)))
             (srcrect (snd (glyphs (generate_glyph_srcrects font_info) ! j))))"
proof (cases "glyphs font_info = []")
  case True
  then show ?thesis by (simp add: generate_glyph_srcrects_def)
next
  case False
  let ?acc = "pack_glyphs (glyphs font_info) ([], pack_start)"
  let ?out = "generate_glyph_srcrects font_info"
  have out: "glyphs ?out = fst ?acc" "textures ?out = last_texture (snd ?acc)"
    using False assms(1) by (simp_all add: generate_glyph_srcrects_def)
  have inv: "pack_invar ?acc"
    by (rule pack_glyphs_invar [OF pack_invar_start assms(2)])
  have ne: "fst ?acc \<noteq> []" by (rule pack_glyphs_nonempty [OF False])
  from inv ne have pos: "0 < pk_texture_width (snd ?acc)" "0 < pk_texture_height (snd ?acc)"
    and len: "length (pk_textures (snd ?acc)) = pk_texture_index (snd ?acc)"
    and ok: "\<forall>cg \<in> set (fst ?acc). placed_ok (snd ?acc) (snd cg)"
    and srt: "sorted_wrt apart (fst ?acc)"
    by (simp_all add: pack_invar_def cursor_ok_def)
  have pages: "textures ?out = pk_textures (snd ?acc) @
      [\<lparr>rect_x = 0, rect_y = 0, rect_w = pk_texture_width (snd ?acc),
        rect_h = pk_texture_height (snd ?acc)\<rparr>]"
    using pos by (simp add: out last_texture_def)
  have inside: "texture_index (snd cg) < length (textures ?out) \<and>
        rect_inside (srcrect (snd cg)) (textures ?out ! texture_index (snd cg)) \<and>
        rect_w (srcrect (snd cg)) = surface_w (snd cg) \<and>
        rect_h (srcrect (snd cg)) = surface_h (snd cg)"
    if "cg \<in> set (glyphs ?out)" for cg
  proof -
    from that ok have p: "placed_ok (snd ?acc) (snd cg)" by (simp add: out)
    show ?thesis
    proof (cases "texture_index (snd cg) = pk_texture_index (snd ?acc)")
      case True
      with p show ?thesis
        by (simp add: pages len placed_ok_def rect_inside_def nth_append)
    next
      case False
      with p have lt: "texture_index (snd cg) < pk_texture_index (snd ?acc)"
        by (simp add: placed_ok_def)
      with p False show ?thesis
        by (simp add: pages len placed_ok_def rect_inside_def nth_append)
    qed
  qed
  have disjoint: "\<not> rects_overlap (srcrect (snd (glyphs ?out ! i))) (srcrect (snd (glyphs ?out ! j)))"
    if "i < j \<and> j < length (glyphs ?out) \<and>
        texture_index (snd (glyphs ?out ! i)) = texture_index (snd (glyphs ?out ! j))" for i j
  proof -
    from that srt have "apart (glyphs ?out ! i) (glyphs ?out ! j)"
      by (simp add: out sorted_wrt_iff_nth_less)
    with that show ?thesis by (simp add: apart_def)
  qed
  have fits: "pack_fits (glyphs font_info) pack_start"
    by (rule pack_glyphs_fits [OF reach_ok_start]) (use assms(2,3) in blast)
  have "map surface_of (glyphs ?out) = map surface_of (glyphs font_info)"
    by (simp add: out pack_glyphs_surfaces)
  with fits inside disjoint show ?thesis by blast
qed

lemma sizes_ok_step:
  assumes "sizes_ok s" and "surface_w g \<le> max_texture_width"
    and "surface_h g \<le> max_texture_height"
  shows "sizes_ok (snd (pack_glyph g s))"
  using assms by (auto simp: sizes_ok_def pack_defs nth_append)

lemma pack_glyphs_sizes_ok:
  assumes "sizes_ok (snd acc)"
    and "\<forall>cg \<in> set gs. surface_w (snd cg) \<le> max_texture_width \<and>
           surface_h (snd cg) \<le> max_texture_height"
  shows "sizes_ok (snd (pack_glyphs gs acc))"
  using assms
proof (induction gs arbitrary: acc)
  case Nil
  then show ?case by simp
next
  case (Cons cg gs)
  have "sizes_ok (snd (pack_glyph (snd cg) (snd acc)))"
    by (rule sizes_ok_step) (use Cons.prems in simp_all)
  then show ?case using Cons.IH Cons.prems(2) by simp
qed

lemma sizes_ok_start: "sizes_ok (snd ([], pack_start))"
  by (simp add: sizes_ok_def pack_start_def max_texture_height_def max_texture_width_def)

text \<open>
  C7: for glyphs no wider and no higher than the maximum, no texture produced is wider
  or higher than 2048, and when two or more textures are produced the first is lower
  than 2048.
\<close>

theorem pages_within_maximum:
  assumes "textures font_info = []"
    and "\<forall>cg \<in> set (glyphs font_info). surface_w (snd cg) \<le> max_texture_width \<and>
           surface_h (snd cg) \<le> max_texture_height"
  shows "(\<forall>t \<in> set (textures (generate_glyph_srcrects font_info)).
            rect_w t \<le> 2048 \<and> rect_h t \<le> 2048) \<and>
     (2 \<le> length (textures (generate_glyph_srcrects font_info)) \<longrightarrow>
        rect_h (textures (generate_glyph_srcrects font_info) ! 0) < 2048)"
proof (cases "glyphs font_info = []")
  case True
  then show ?thesis using assms(1) by (simp add: generate_glyph_srcrects_def)
next
  case False
  let ?s = "snd (pack_glyphs (glyphs font_info) ([], pack_start))"
  have out: "textures (generate_glyph_srcrects font_info) = last_texture ?s"
    using False assms(1) by (simp add: generate_glyph_srcrects_def)
  have "sizes_ok ?s"
    by (rule pack_glyphs_sizes_ok [OF sizes_ok_start assms(2)])
  then show ?thesis
    unfolding out
    by (auto simp: sizes_ok_def last_texture_def max_texture_width_def max_texture_height_def
        nth_append split: if_splits)
qed

text \<open>
  The font of four glyphs takes two textures; the first is recorded 2000 pixels high.
\<close>

theorem pages_within_maximum_witness:
  "length (textures (generate_glyph_srcrects tall_font)) = 2 \<and>
   rect_h (textures (generate_glyph_srcrects tall_font) ! 0) = 2000 \<and>
   rect_h (textures (generate_glyph_srcrects tall_font) ! 0) < 2048 \<and>
   rect_w (textures (generate_glyph_srcrects tall_font) ! 1) \<le> 2048"
proof -
  have t: "textures tall_font = []" by (simp add: tall_font_def)
  have g: "\<forall>cg \<in> set (glyphs tall_font). surface_w (snd cg) \<le> max_texture_width \<and>
           surface_h (snd cg) \<le> max_texture_height"
    by (simp add: tall_font_def glyph_def max_texture_width_def max_texture_height_def)
  have len: "length (textures (generate_glyph_srcrects tall_font)) = 2"
    and first: "rect_h (textures (generate_glyph_srcrects tall_font) ! 0) = 2000"
    by code_simp+
  have "textures (generate_glyph_srcrects tall_font) ! 1
      \<in> set (textures (generate_glyph_srcrects tall_font))"
    by (rule nth_mem) (simp add: len)
  then show ?thesis
    using pages_within_maximum [OF t g] len first by auto
qed

text \<open>
  In the font of four glyphs the last two share the second texture, side by side.
\<close>

theorem glyphs_packed_inside_pages_without_overlap_witness:
  "texture_index (snd (glyphs (generate_glyph_srcrects tall_font) ! 3)) = 1 \<and>
   length (textures (generate_glyph_srcrects tall_font)) = 2 \<and>
   rect_inside (srcrect (snd (glyphs (generate_glyph_srcrects tall_font) ! 3)))
     (textures (generate_glyph_srcrects tall_font) ! 1) \<and>
   \<not> rects_overlap (srcrect (snd (glyphs (generate_glyph_srcrects tall_font) ! 2)))
        (srcrect (snd (glyphs (generate_glyph_srcrects tall_font) ! 3)))"
proof -
  have t: "textures tall_font = []" by (simp add: tall_font_def)
  have g: "\<forall>cg \<in> set (glyphs tall_font). 0 < surface_w (snd cg) \<and> 0 < surface_h (snd cg)"
    by (simp add: tall_font_def glyph_def)
  have b: "\<forall>cg \<in> set (glyphs tall_font).
      surface_w (snd cg) \<le> largest_surface \<and> surface_h (snd cg) \<le> largest_surface"
    by (simp add: tall_font_def glyph_def largest_surface_def)
  have len: "length (glyphs (generate_glyph_srcrects tall_font)) = 4"
    and pages: "length (textures (generate_glyph_srcrects tall_font)) = 2"
    and i2: "texture_index (snd (glyphs (generate_glyph_srcrects tall_font) ! 2)) = 1"
    and i3: "texture_index (snd (glyphs (generate_glyph_srcrects tall_font) ! 3)) = 1"
    by code_simp+
  have mem: "glyphs (generate_glyph_srcrects tall_font) ! 3
      \<in> set (glyphs (generate_glyph_srcrects tall_font))"
    by (rule nth_mem) (simp add: len)
  note packed = glyphs_packed_inside_pages_without_overlap [OF t g b]
  from packed mem have "rect_inside (srcrect (snd (glyphs (generate_glyph_srcrects tall_font) ! 3)))
     (textures (generate_glyph_srcrects tall_font) !
        texture_index (snd (glyphs (generate_glyph_srcrects tall_font) ! 3)))"
    by blast
  moreover have "(2 :: nat) < 3 \<and> 3 < length (glyphs (generate_glyph_srcrects tall_font)) \<and>
      texture_index (snd (glyphs (generate_glyph_srcrects tall_font) ! 2)) =
      texture_index (snd (glyphs (generate_glyph_srcrects tall_font) ! 3))"
    using len i2 i3 by simp
  with packed have "\<not> rects_overlap
        (srcrect (snd (glyphs (generate_glyph_srcrects tall_font) ! 2)))
        (srcrect (snd (glyphs (generate_glyph_srcrects tall_font) ! 3)))"
    by blast
  ultimately show ?thesis using pages i3 by simp
qed

end
